theory Spec2Isabelle
  imports Complex_Main "HOL-Library.Multiset"
begin

section \<open>Python values and errors\<close>

text \<open>
  The benchmark framework is Python. Exceptions are values of \<open>py_error\<close>; a
  computation that may raise returns \<open>py_error + 'a\<close> with \<open>Inl\<close> the exception.
  \<open>ExternalError\<close> stands for any exception of class \<open>Exception\<close> raised by an
  external collaborator (the database driver, the NATS client, the operating
  system). \<open>KeyboardInterrupt\<close>, \<open>SystemExit\<close> and \<open>asyncio.CancelledError\<close>
  derive from \<open>BaseException\<close> only: \<open>except Exception\<close> does not catch them.
\<close>

datatype py_error = AttributeError | TypeError | ValueError | OverflowError | ExternalError
  | KeyboardInterrupt | SystemExit | CancelledError

fun is_exception :: "py_error \<Rightarrow> bool" where
  "is_exception KeyboardInterrupt = False"
| "is_exception SystemExit = False"
| "is_exception CancelledError = False"
| "is_exception _ = True"

text \<open>
  A Python float: a finite value, an infinity or NaN. A finite double is the
  rational number it represents.
\<close>

datatype pyfloat = Finite rat | PosInf | NegInf | NaN

text \<open>
  A decoded JSON value as \<open>json.loads\<close> returns it. A dict is an association
  list read with \<open>map_of\<close>.
\<close>

datatype json =
    JNull
  | JBool bool
  | JInt int
  | JFloat pyfloat
  | JStr string
  | JArr "json list"
  | JObj "(string \<times> json) list"

text \<open>Truth value testing (\<open>if measurements:\<close>, \<open>any([...])\<close>).\<close>

fun truthy :: "json \<Rightarrow> bool" where
  "truthy JNull = False"
| "truthy (JBool b) = b"
| "truthy (JInt i) = (i \<noteq> 0)"
| "truthy (JFloat x) = (x \<noteq> Finite 0)"
| "truthy (JStr s) = (s \<noteq> [])"
| "truthy (JArr xs) = (xs \<noteq> [])"
| "truthy (JObj kvs) = (kvs \<noteq> [])"

text \<open>\<open>d.get(key, default)\<close> on a dict.\<close>

definition dict_get :: "(string \<times> json) list \<Rightarrow> string \<Rightarrow> json \<Rightarrow> json" where
  "dict_get d k dflt = (case map_of d k of None \<Rightarrow> dflt | Some v \<Rightarrow> v)"

text \<open>
  \<open>v.get(key, default)\<close> on an arbitrary value: only a dict has the method,
  every other JSON value raises AttributeError.
\<close>

fun py_get :: "json \<Rightarrow> string \<Rightarrow> json \<Rightarrow> py_error + json" where
  "py_get (JObj d) k dflt = Inr (dict_get d k dflt)"
| "py_get _ k dflt = Inl AttributeError"

text \<open>
  A Python number is an int of any size or a float (\<open>bool\<close> is a subclass of
  \<open>int\<close>).
\<close>

datatype num = NInt int | NFloat pyfloat

fun num_of :: "json \<Rightarrow> num option" where
  "num_of (JBool b) = Some (NInt (if b then 1 else 0))"
| "num_of (JInt i) = Some (NInt i)"
| "num_of (JFloat x) = Some (NFloat x)"
| "num_of _ = None"

text \<open>\<open>v > 0\<close>: TypeError unless \<open>v\<close> is a number; false for NaN.\<close>

fun float_positive :: "pyfloat \<Rightarrow> bool" where
  "float_positive (Finite r) = (0 < r)"
| "float_positive PosInf = True"
| "float_positive NegInf = False"
| "float_positive NaN = False"

definition gt_zero :: "json \<Rightarrow> py_error + bool" where
  "gt_zero v =
     (case num_of v of
        None \<Rightarrow> Inl TypeError
      | Some (NInt i) \<Rightarrow> Inr (0 < i)
      | Some (NFloat x) \<Rightarrow> Inr (float_positive x))"

text \<open>
  Floating-point arithmetic rounds, and how \<open>sum\<close> adds floats depends on the
  interpreter (plain addition from the left, or compensated summation since
  Python 3.12). The three operations that round are therefore parameters of the
  model, and every statement below holds for whatever they are:
  \<^item> \<open>float_sum ns\<close>, the float \<open>sum\<close> returns for the numbers \<open>ns\<close> (in this
    order) when they are not all ints; \<open>None\<close> is OverflowError (an int too
    large to convert to a float);
  \<^item> \<open>true_div x n\<close>, the float \<open>x / n\<close> for a positive int \<open>n\<close>; \<open>None\<close> is
    OverflowError (an int quotient too large for a float);
  \<^item> \<open>round_float x n\<close>, the float \<open>round(x, n)\<close>.
  Sums of ints are exact in Python and are computed here.
\<close>

record arith =
  float_sum :: "num list \<Rightarrow> pyfloat option"
  true_div :: "num \<Rightarrow> nat \<Rightarrow> pyfloat option"
  round_float :: "pyfloat \<Rightarrow> nat \<Rightarrow> pyfloat"

fun is_int :: "num \<Rightarrow> bool" where
  "is_int (NInt i) = True"
| "is_int (NFloat x) = False"

fun int_part :: "num \<Rightarrow> int" where
  "int_part (NInt i) = i"
| "int_part (NFloat x) = 0"

text \<open>
  \<open>sum(vs)\<close>, starting from the integer 0 and adding from the left. The
  numbers before the first value that is not a number are added first (which
  may overflow); that value then raises TypeError.
\<close>

definition py_sum :: "arith \<Rightarrow> json list \<Rightarrow> py_error + num" where
  "py_sum ar vs =
     (let numbers = List.map_filter num_of (takeWhile (\<lambda>v. num_of v \<noteq> None) vs);
          summed = (if list_all is_int numbers then Some (NInt (sum_list (map int_part numbers)))
                   else map_option NFloat (float_sum ar numbers))
      in case summed of
           None \<Rightarrow> Inl OverflowError
         | Some t \<Rightarrow> if length numbers < length vs then Inl TypeError else Inr t)"

text \<open>
  \<open>int(x)\<close> on a float truncates towards zero, exactly; an infinity raises
  OverflowError and NaN raises ValueError.
\<close>

definition py_trunc :: "rat \<Rightarrow> int" where
  "py_trunc r = (if 0 \<le> r then \<lfloor>r\<rfloor> else \<lceil>r\<rceil>)"

fun int_of_float :: "pyfloat \<Rightarrow> py_error + int" where
  "int_of_float (Finite r) = Inr (py_trunc r)"
| "int_of_float NaN = Inl ValueError"
| "int_of_float _ = Inl OverflowError"

section \<open>collector_client.py: CollectorClient.aggregate_metrics\<close>

text \<open>
  A buffered sample is the dict the message handler appended (a payload that is
  not a JSON object fails at \<open>data['_received_at'] = ...\<close> and is dropped by
  the handler, so every buffered sample is a dict).
\<close>

type_synonym sample = "(string \<times> json) list"

text \<open>The four lists the loop of lines 112-148 fills.\<close>

record sample_lists =
  connection_samples :: "(json \<times> json) list"
  cache_samples :: "json list"
  scan_samples :: "(json \<times> json) list"
  health_samples :: "(json \<times> json \<times> json \<times> json) list"

text \<open>Lines 119-134: the measurements of one sample.\<close>

definition parse_measurements :: "sample \<Rightarrow> sample_lists \<Rightarrow> py_error + sample_lists" where
  "parse_measurements metric acc =
     (let measurements = dict_get metric ''measurements'' (JObj [])
      in if truthy measurements then
           (case py_get measurements ''active_connections'' (JInt 0) of
              Inl e \<Rightarrow> Inl e
            | Inr active \<Rightarrow>
           (case py_get measurements ''max_connections'' (JInt 100) of
              Inl e \<Rightarrow> Inl e
            | Inr maxc \<Rightarrow>
           (case py_get measurements ''cache_hit_rate'' (JInt 0) of
              Inl e \<Rightarrow> Inl e
            | Inr cache_rate \<Rightarrow>
           (case gt_zero cache_rate of
              Inl e \<Rightarrow> Inl e
            | Inr positive \<Rightarrow>
           (case py_get measurements ''sequential_scans'' (JInt 0) of
              Inl e \<Rightarrow> Inl e
            | Inr sequential \<Rightarrow>
                Inr (acc\<lparr>connection_samples := connection_samples acc @ [(active, maxc)],
                         cache_samples :=
                           (if positive then cache_samples acc @ [cache_rate]
                            else cache_samples acc),
                         scan_samples := scan_samples acc @ [(sequential, JInt 0)]\<rparr>))))))
         else Inr acc)"

text \<open>Lines 137-148: the health scores of one sample.\<close>

definition parse_health :: "sample \<Rightarrow> sample_lists \<Rightarrow> sample_lists" where
  "parse_health metric acc =
     (let connection_health = dict_get metric ''connection_health'' (JInt 0);
          query_health = dict_get metric ''query_health'' (JInt 0);
          cache_health = dict_get metric ''cache_health'' (JInt 0);
          overall_health = dict_get metric ''health_score'' (JInt 0)
      in if truthy connection_health \<or> truthy query_health \<or> truthy cache_health
            \<or> truthy overall_health
         then acc\<lparr>health_samples := health_samples acc
                    @ [(query_health, connection_health, cache_health, overall_health)]\<rparr>
         else acc)"

text \<open>The loop of line 117 over the buffer; an exception leaves the loop.\<close>

fun collect_samples :: "sample list \<Rightarrow> sample_lists \<Rightarrow> py_error + sample_lists" where
  "collect_samples [] acc = Inr acc"
| "collect_samples (metric # rest) acc =
     (case parse_measurements metric acc of
        Inl e \<Rightarrow> Inl e
      | Inr acc' \<Rightarrow> collect_samples rest (parse_health metric acc'))"

text \<open>\<open>sum(...) / len(samples)\<close> for a non-empty list.\<close>

definition py_mean :: "arith \<Rightarrow> json list \<Rightarrow> py_error + pyfloat" where
  "py_mean ar vs =
     (case py_sum ar vs of
        Inl e \<Rightarrow> Inl e
      | Inr summed \<Rightarrow>
          (case true_div ar summed (length vs) of
             None \<Rightarrow> Inl OverflowError
           | Some q \<Rightarrow> Inr q))"

text \<open>
  Lines 151-182, one block per \<open>if\<close>. The result dict \<open>aggregated\<close> is the
  association list of its items in insertion order.
\<close>

definition add_connections ::
  "arith \<Rightarrow> sample_lists \<Rightarrow> (string \<times> json) list \<Rightarrow> py_error + (string \<times> json) list" where
  "add_connections ar acc aggregated =
     (case connection_samples acc of
        [] \<Rightarrow> Inr aggregated
      | first # _ \<Rightarrow>
          (case py_mean ar (map fst (connection_samples acc)) of
             Inl e \<Rightarrow> Inl e
           | Inr m \<Rightarrow>
          (case int_of_float m of
             Inl e \<Rightarrow> Inl e
           | Inr i \<Rightarrow> Inr (aggregated @ [(''active_connections'', JInt i),
                                         (''max_connections'', snd first)]))))"

definition add_cache ::
  "arith \<Rightarrow> sample_lists \<Rightarrow> (string \<times> json) list \<Rightarrow> py_error + (string \<times> json) list" where
  "add_cache ar acc aggregated =
     (if cache_samples acc = [] then Inr aggregated
      else (case py_mean ar (cache_samples acc) of
              Inl e \<Rightarrow> Inl e
            | Inr m \<Rightarrow> Inr (aggregated @ [(''cache_hit_rate'', JFloat (round_float ar m 4))])))"

definition add_scans ::
  "arith \<Rightarrow> sample_lists \<Rightarrow> (string \<times> json) list \<Rightarrow> py_error + (string \<times> json) list" where
  "add_scans ar acc aggregated =
     (if scan_samples acc = [] then Inr aggregated
      else (case py_mean ar (map fst (scan_samples acc)) of
              Inl e \<Rightarrow> Inl e
            | Inr m \<Rightarrow>
           (case int_of_float m of
              Inl e \<Rightarrow> Inl e
            | Inr i \<Rightarrow> Inr (aggregated @ [(''sequential_scans'', JInt i),
                                          (''index_scans'', JInt 0)]))))"

definition add_health ::
  "arith \<Rightarrow> sample_lists \<Rightarrow> (string \<times> json) list \<Rightarrow> py_error + (string \<times> json) list" where
  "add_health ar acc aggregated =
     (if health_samples acc = [] then Inr aggregated
      else
        (case py_mean ar (map (\<lambda>(q, c, ch, ov). q) (health_samples acc)) of
           Inl e \<Rightarrow> Inl e
         | Inr q \<Rightarrow>
        (case py_mean ar (map (\<lambda>(q, c, ch, ov). c) (health_samples acc)) of
           Inl e \<Rightarrow> Inl e
         | Inr c \<Rightarrow>
        (case py_mean ar (map (\<lambda>(q, c, ch, ov). ch) (health_samples acc)) of
           Inl e \<Rightarrow> Inl e
         | Inr ch \<Rightarrow>
        (case py_mean ar (map (\<lambda>(q, c, ch, ov). ov) (health_samples acc)) of
           Inl e \<Rightarrow> Inl e
         | Inr ov \<Rightarrow>
             Inr (aggregated @ [(''query_health'', JFloat (round_float ar q 2)),
                                (''connection_health'', JFloat (round_float ar c 2)),
                                (''cache_health'', JFloat (round_float ar ch 2)),
                                (''overall_health'', JFloat (round_float ar ov 2))]))))))"

definition empty_lists :: sample_lists where
  "empty_lists = \<lparr>connection_samples = [], cache_samples = [], scan_samples = [],
                  health_samples = []\<rparr>"

text \<open>
  \<open>aggregate_metrics\<close> on the buffer \<open>metrics_buffer\<close>: \<open>Inr None\<close> is the
  return value \<open>None\<close>, \<open>Inr (Some aggregated)\<close> the returned dict.
\<close>

definition aggregate_metrics ::
  "arith \<Rightarrow> sample list \<Rightarrow> py_error + (string \<times> json) list option" where
  "aggregate_metrics ar metrics_buffer =
     (if metrics_buffer = [] then Inr None
      else
        (case collect_samples metrics_buffer empty_lists of
           Inl e \<Rightarrow> Inl e
         | Inr acc \<Rightarrow>
        (case add_connections ar acc [] of
           Inl e \<Rightarrow> Inl e
         | Inr a1 \<Rightarrow>
        (case add_cache ar acc a1 of
           Inl e \<Rightarrow> Inl e
         | Inr a2 \<Rightarrow>
        (case add_scans ar acc a2 of
           Inl e \<Rightarrow> Inl e
         | Inr a3 \<Rightarrow>
        (case add_health ar acc a3 of
           Inl e \<Rightarrow> Inl e
         | Inr a4 \<Rightarrow> Inr (Some a4)))))))"

section \<open>Python string and number conversions\<close>

text \<open>
  Strings are lists of ASCII characters. \<open>str.strip\<close>, \<open>int\<close> and \<open>float\<close>
  are Python built-ins; they are modelled for ASCII input (whitespace and the
  decimal digits 0-9).
\<close>

definition is_space :: "char \<Rightarrow> bool" where
  "is_space c = (c \<in> set [CHR '' '', CHR 0x09, CHR 0x0A, CHR 0x0B, CHR 0x0C, CHR 0x0D,
                            CHR 0x1C, CHR 0x1D, CHR 0x1E, CHR 0x1F])"

definition strip :: "string \<Rightarrow> string" where
  "strip s = rev (dropWhile is_space (rev (dropWhile is_space s)))"

definition is_digit :: "char \<Rightarrow> bool" where
  "is_digit c = (c \<in> set ''0123456789'')"

definition digit_val :: "char \<Rightarrow> nat" where
  "digit_val c = of_char c - 48"

text \<open>
  A run of digits in which single underscores may separate digits: the value
  read so far, the number of digits, and the rest of the input.
\<close>

fun digits_rest :: "nat \<Rightarrow> nat \<Rightarrow> string \<Rightarrow> nat \<times> nat \<times> string" where
  "digits_rest v n [] = (v, n, [])"
| "digits_rest v n [c] = (if is_digit c then (10 * v + digit_val c, Suc n, []) else (v, n, [c]))"
| "digits_rest v n (c # d # cs) =
     (if is_digit c then digits_rest (10 * v + digit_val c) (Suc n) (d # cs)
      else if c = CHR ''_'' \<and> is_digit d then digits_rest (10 * v + digit_val d) (Suc n) cs
      else (v, n, c # d # cs))"

definition digitpart :: "string \<Rightarrow> (nat \<times> nat \<times> string) option" where
  "digitpart s =
     (case s of [] \<Rightarrow> None
      | c # cs \<Rightarrow> if is_digit c then Some (digits_rest (digit_val c) 1 cs) else None)"

text \<open>An optional sign: whether it is a minus, and the rest.\<close>

definition sign_of :: "string \<Rightarrow> bool \<times> string" where
  "sign_of s =
     (case s of [] \<Rightarrow> (False, [])
      | c # cs \<Rightarrow> if c = CHR ''-'' then (True, cs) else if c = CHR ''+'' then (False, cs)
                  else (False, s))"

text \<open>\<open>int(s)\<close> on a string, base 10: None is ValueError.\<close>

definition py_int :: "string \<Rightarrow> int option" where
  "py_int s =
     (let (neg, u) = sign_of (strip s)
      in case digitpart u of
           Some (v, n, []) \<Rightarrow> Some (if neg then - int v else int v)
         | _ \<Rightarrow> None)"

definition lower :: "char \<Rightarrow> char" where
  "lower c =
     (case map_of (zip ''ABCDEFGHIJKLMNOPQRSTUVWXYZ'' ''abcdefghijklmnopqrstuvwxyz'') c of
        None \<Rightarrow> c | Some l \<Rightarrow> l)"

definition exponent :: "rat \<Rightarrow> string \<Rightarrow> rat option" where
  "exponent m s =
     (case s of [] \<Rightarrow> Some m
      | c # cs \<Rightarrow>
          if c = CHR ''e'' \<or> c = CHR ''E'' then
            (let (neg, u) = sign_of cs
             in case digitpart u of
                  Some (v, n, []) \<Rightarrow> Some (if neg then m / 10 ^ v else m * 10 ^ v)
                | _ \<Rightarrow> None)
          else None)"

definition decimal :: "string \<Rightarrow> rat option" where
  "decimal u =
     (case digitpart u of
        Some (iv, n, rest) \<Rightarrow>
          (case rest of
             [] \<Rightarrow> Some (of_nat iv)
           | c # r \<Rightarrow>
               if c = CHR ''.'' then
                 (case digitpart r of
                    Some (fv, fn, r2) \<Rightarrow> exponent (of_nat iv + of_nat fv / 10 ^ fn) r2
                  | None \<Rightarrow> exponent (of_nat iv) r)
               else exponent (of_nat iv) rest)
      | None \<Rightarrow>
          (case u of
             [] \<Rightarrow> None
           | c # r \<Rightarrow>
               if c = CHR ''.'' then
                 (case digitpart r of
                    Some (fv, fn, r2) \<Rightarrow> exponent (of_nat fv / 10 ^ fn) r2
                  | None \<Rightarrow> None)
               else None))"

text \<open>
  \<open>float(s)\<close> on a string: None is ValueError. A finite value is kept as the
  exact rational its text denotes; Python rounds it to the nearest double, and
  to an infinity beyond the range of doubles. No statement below depends on
  the value of a float read from text.
\<close>

definition py_float :: "string \<Rightarrow> pyfloat option" where
  "py_float s =
     (let (neg, u) = sign_of (strip s); l = map lower u
      in if l = ''inf'' \<or> l = ''infinity'' then Some (if neg then NegInf else PosInf)
         else if l = ''nan'' then Some NaN
         else map_option (\<lambda>r. Finite (if neg then - r else r)) (decimal u))"

section \<open>locust_collector.py: LocustCollector.extract_metrics\<close>

text \<open>
  The stats file is the sequence of records \<open>csv.reader\<close> yields for it, the
  header first; the file system maps a path to the file there, if one exists.
\<close>

type_synonym csv_table = "string list list"

type_synonym filesystem = "string \<Rightarrow> csv_table option"

text \<open>
  A row of \<open>csv.DictReader\<close>: the dict of the header's field names, read with
  \<open>map_of\<close>; the value None stands for Python's None, which DictReader fills
  in for the fields a short record lacks. Later writes to the same key win.
\<close>

type_synonym csv_row = "(string \<times> string option) list"

definition dict_row :: "string list \<Rightarrow> string list \<Rightarrow> csv_row" where
  "dict_row fieldnames record =
     rev (zip fieldnames (map Some record @ replicate (length fieldnames - length record) None))"

text \<open>DictReader takes the first record as the field names and skips empty records.\<close>

fun DictReader :: "csv_table \<Rightarrow> csv_row list" where
  "DictReader [] = []"
| "DictReader (fieldnames # records) =
     map (dict_row fieldnames) (filter (\<lambda>record. record \<noteq> []) records)"

text \<open>\<open>row.get(key, dflt).strip()\<close>: AttributeError on None.\<close>

definition stripped_field :: "csv_row \<Rightarrow> string \<Rightarrow> string \<Rightarrow> py_error + string" where
  "stripped_field row key dflt =
     (case map_of row key of
        None \<Rightarrow> Inr (strip dflt)
      | Some None \<Rightarrow> Inl AttributeError
      | Some (Some s) \<Rightarrow> Inr (strip s))"

text \<open>\<open>int(v)\<close> and \<open>float(v)\<close> for a cell: TypeError on None, ValueError on text that does not parse.\<close>

definition int_cell :: "string option \<Rightarrow> py_error + int" where
  "int_cell v =
     (case v of None \<Rightarrow> Inl TypeError
      | Some s \<Rightarrow> (case py_int s of None \<Rightarrow> Inl ValueError | Some i \<Rightarrow> Inr i))"

definition float_cell :: "string option \<Rightarrow> py_error + pyfloat" where
  "float_cell v =
     (case v of None \<Rightarrow> Inl TypeError
      | Some s \<Rightarrow> (case py_float s of None \<Rightarrow> Inl ValueError | Some x \<Rightarrow> Inr x))"

text \<open>\<open>int(row.get(key, 0))\<close> and \<open>float(row.get(key, 0))\<close>.\<close>

definition int_field :: "csv_row \<Rightarrow> string \<Rightarrow> py_error + int" where
  "int_field row key = (case map_of row key of None \<Rightarrow> Inr 0 | Some v \<Rightarrow> int_cell v)"

definition float_field :: "csv_row \<Rightarrow> string \<Rightarrow> py_error + pyfloat" where
  "float_field row key = (case map_of row key of None \<Rightarrow> Inr (Finite 0) | Some v \<Rightarrow> float_cell v)"

record endpoint_metric =
  endpoint :: string
  http_method :: string
  request_count :: int
  failure_count :: int
  median_response_time :: pyfloat
  average_response_time :: pyfloat
  min_response_time :: pyfloat
  max_response_time :: pyfloat
  p50_response_time :: pyfloat
  p95_response_time :: pyfloat
  p99_response_time :: pyfloat
  requests_per_second :: pyfloat
  failures_per_second :: pyfloat

text \<open>Lines 58-72: the dict literal, its values evaluated in order.\<close>

definition build_metric :: "csv_row \<Rightarrow> string \<Rightarrow> string \<Rightarrow> py_error + endpoint_metric" where
  "build_metric row ep meth =
     (case int_field row ''Request Count'' of Inl e \<Rightarrow> Inl e | Inr rc \<Rightarrow>
     (case int_field row ''Failure Count'' of Inl e \<Rightarrow> Inl e | Inr fc \<Rightarrow>
     (case float_field row ''Median Response Time'' of Inl e \<Rightarrow> Inl e | Inr med \<Rightarrow>
     (case float_field row ''Average Response Time'' of Inl e \<Rightarrow> Inl e | Inr avg \<Rightarrow>
     (case float_field row ''Min Response Time'' of Inl e \<Rightarrow> Inl e | Inr mn \<Rightarrow>
     (case float_field row ''Max Response Time'' of Inl e \<Rightarrow> Inl e | Inr mx \<Rightarrow>
     (case (case map_of row ''50%'' of
              None \<Rightarrow> float_field row ''Median Response Time''
            | Some v \<Rightarrow> float_cell v) of Inl e \<Rightarrow> Inl e | Inr p50 \<Rightarrow>
     (case float_field row ''95%'' of Inl e \<Rightarrow> Inl e | Inr p95 \<Rightarrow>
     (case float_field row ''99%'' of Inl e \<Rightarrow> Inl e | Inr p99 \<Rightarrow>
     (case float_field row ''Requests/s'' of Inl e \<Rightarrow> Inl e | Inr rps \<Rightarrow>
     (case float_field row ''Failures/s'' of Inl e \<Rightarrow> Inl e | Inr fps \<Rightarrow>
        Inr \<lparr>endpoint = ep, http_method = meth, request_count = rc, failure_count = fc,
             median_response_time = med, average_response_time = avg,
             min_response_time = mn, max_response_time = mx, p50_response_time = p50,
             p95_response_time = p95, p99_response_time = p99,
             requests_per_second = rps, failures_per_second = fps\<rparr>)))))))))))"

text \<open>
  Lines 42-77: the loop over the rows. A ValueError of the dict literal is
  caught (the row is logged and dropped); every other exception leaves the
  function.
\<close>

fun extract_rows :: "csv_row list \<Rightarrow> endpoint_metric list \<Rightarrow> py_error + endpoint_metric list" where
  "extract_rows [] metrics = Inr metrics"
| "extract_rows (row # rows) metrics =
     (if map_of row ''Name'' = Some (Some ''Aggregated'') then extract_rows rows metrics
      else
        (case stripped_field row ''Name'' '''' of Inl e \<Rightarrow> Inl e | Inr name \<Rightarrow>
        (case stripped_field row ''Method'' ''GET'' of Inl e \<Rightarrow> Inl e | Inr meth \<Rightarrow>
           (let (meth', ep) =
                  (if CHR '' '' \<in> set name
                   then (takeWhile (\<lambda>c. c \<noteq> CHR '' '') name,
                         tl (dropWhile (\<lambda>c. c \<noteq> CHR '' '') name))
                   else (meth, name))
            in case build_metric row ep meth' of
                 Inr metric \<Rightarrow> extract_rows rows (metrics @ [metric])
               | Inl ValueError \<Rightarrow> extract_rows rows metrics
               | Inl e \<Rightarrow> Inl e))))"

definition extract_metrics :: "filesystem \<Rightarrow> string \<Rightarrow> py_error + endpoint_metric list" where
  "extract_metrics fs csv_prefix =
     (let stats_path = csv_prefix @ ''_stats.csv''
      in case fs stats_path of
           None \<Rightarrow> Inr []
         | Some table \<Rightarrow> extract_rows (DictReader table) [])"

section \<open>benchmark_runner.py: BenchmarkRunner\<close>

text \<open>
  The runner talks to a database, a NATS connection, the file system and a
  child process. Every call to them is recorded as an event, in order; the
  list of events of a run is what the run did.
\<close>

datatype event =
    CreateBenchmarkRun string int
  | Connect
  | StartCollecting
  | KeepAlive
  | StopCollecting
  | Disconnect
  | OpenLog string
  | Popen int int
  | CloseLog
  | Terminate
  | Kill
  | Sleep nat
  | Cooldown int
  | ExtractMetrics string
  | InsertLocustMetrics string "endpoint_metric list"
  | GetAggregatedMetrics
  | InsertCollectorMetrics string "(string \<times> json) list"
  | CreateRunSummary string

text \<open>The external calls that can raise.\<close>

datatype ext_call =
    DbCreateRun
  | NatsConnect
  | NatsSubscribe
  | LogOpen
  | ProcessSpawn
  | LoopRun
  | NatsUnsubscribe
  | DbInsertLocust
  | DbInsertCollector
  | DbCreateSummary
  | NatsDisconnect

text \<open>
  What the outside world does during one run: which external calls raise, and
  what (an exception of the driver, or a \<open>KeyboardInterrupt\<close> that arrives
  during the call); how many seconds after its launch the Locust process exits
  by itself (None: it never does) and with which exit code; whether it
  survives \<open>terminate()\<close> for more than 10 seconds; the files found when the
  CSV is read; the samples in the collector's buffer when it is aggregated;
  the clock's timestamp; and the float arithmetic of the interpreter.

  Time is counted in seconds. \<open>time.sleep(n)\<close> and \<open>keep_alive(1.0)\<close> take
  their duration and, as every call does, a little more: less than a second
  over a run. A clock read after \<open>n\<close> rounds of \<open>keep_alive(1.0)\<close> therefore
  shows more than \<open>n\<close> and less than \<open>n + 1\<close> seconds.
\<close>

record world =
  raises :: "ext_call \<Rightarrow> py_error option"
  lifetime :: "nat option"
  exit_code :: int
  ignores_terminate :: bool
  files :: filesystem
  delivered :: "sample list"
  timestamp :: string
  arithmetic :: arith

text \<open>A \<open>subprocess.Popen\<close> object: whether the process still runs.\<close>

record process =
  alive :: bool
  stubborn :: bool

text \<open>The fields of the BenchmarkRunner object, and the events so far.\<close>

record runner =
  app_name :: string
  stage :: int
  locust_process :: "process option"
  locust_log_file :: bool
  events :: "event list"

definition emit :: "event \<Rightarrow> runner \<Rightarrow> runner" where
  "emit ev s = s\<lparr>events := events s @ [ev]\<rparr>"

text \<open>An external call: it is recorded, and raises what the world says.\<close>

definition call :: "world \<Rightarrow> ext_call \<Rightarrow> event \<Rightarrow> runner \<Rightarrow> (py_error + unit) \<times> runner" where
  "call w c ev s = (case raises w c of None \<Rightarrow> Inr () | Some e \<Rightarrow> Inl e, emit ev s)"

text \<open>\<open>str(n)\<close> for an integer.\<close>

fun str_nat :: "nat \<Rightarrow> string" where
  "str_nat n = (if n < 10 then [''0123456789'' ! n]
                else str_nat (n div 10) @ [''0123456789'' ! (n mod 10)])"

declare str_nat.simps [simp del]

definition str_int :: "int \<Rightarrow> string" where
  "str_int i = (if i < 0 then CHR ''-'' # str_nat (nat (- i)) else str_nat (nat i))"

text \<open>\<open>os.path.join(a, b)\<close> for a directory name \<open>a\<close> without a trailing slash.\<close>

definition os_path_join :: "string \<Rightarrow> string \<Rightarrow> string" where
  "os_path_join a b = (if b \<noteq> [] \<and> hd b = CHR ''/'' then b else a @ ''/'' @ b)"

definition output_dir :: string where
  "output_dir = ''outputs''"

text \<open>Lines 48-50.\<close>

definition generate_run_id :: "world \<Rightarrow> runner \<Rightarrow> int \<Rightarrow> string" where
  "generate_run_id w s user_count =
     app_name s @ ''_stage'' @ str_int (stage s) @ ''_u'' @ str_int user_count @ ''_'' @ timestamp w"

text \<open>Whether the process has exited by itself \<open>t\<close> seconds after its launch.\<close>

definition exited_by :: "world \<Rightarrow> nat \<Rightarrow> bool" where
  "exited_by w t = (case lifetime w of None \<Rightarrow> False | Some l \<Rightarrow> l \<le> t)"

text \<open>
  Lines 83-100, the \<open>try\<close> block of \<open>start_locust\<close>: a process that has exited
  after the 3 seconds' grace is a failed launch.
\<close>

definition launch :: "world \<Rightarrow> string \<Rightarrow> int \<Rightarrow> int \<Rightarrow> runner \<Rightarrow> (py_error + bool) \<times> runner" where
  "launch w run_id user_count duration s =
     (case call w LogOpen (OpenLog (os_path_join output_dir (run_id @ ''.locust.log''))) s of
        (Inl e, s1) \<Rightarrow> (Inl e, s1)
      | (Inr u, s1) \<Rightarrow>
     (case call w ProcessSpawn (Popen user_count duration) (s1\<lparr>locust_log_file := True\<rparr>) of
        (Inl e, s2) \<Rightarrow> (Inl e, s2)
      | (Inr u, s2) \<Rightarrow>
          (let s3 = emit (Sleep 3)
                 (s2\<lparr>locust_process :=
                       Some \<lparr>alive = True, stubborn = ignores_terminate w\<rparr>\<rparr>)
           in if exited_by w 3
              then (Inr False, s3\<lparr>locust_process :=
                       Some \<lparr>alive = False, stubborn = ignores_terminate w\<rparr>\<rparr>)
              else (Inr True, s3))))"

text \<open>
  Lines 52-104, \<open>start_locust\<close>: its \<open>except Exception\<close> turns an exception of
  the launch into False; what is no \<open>Exception\<close> passes through.
\<close>

definition start_locust :: "world \<Rightarrow> string \<Rightarrow> int \<Rightarrow> int \<Rightarrow> runner \<Rightarrow> (py_error + bool) \<times> runner" where
  "start_locust w run_id user_count duration s =
     (case launch w run_id user_count duration s of
        (Inl e, s1) \<Rightarrow> (if is_exception e then Inr False else Inl e, s1)
      | (Inr started, s1) \<Rightarrow> (Inr started, s1))"

text \<open>
  Lines 169-174: the loop that keeps the NATS event loop alive, after
  \<open>elapsed\<close> rounds (\<open>start\<close> is 3 seconds after the launch). After round
  \<open>elapsed + 1\<close> the clock shows more than \<open>elapsed + 1\<close> and less than
  \<open>elapsed + 2\<close> seconds since \<open>start\<close>, so the test
  \<open>time.time() - start > duration + 60\<close> holds if and only if
  \<open>duration + 60 \<le> elapsed + 1\<close>. The loop returns the number of rounds made.
\<close>

function keep_alive_loop :: "world \<Rightarrow> int \<Rightarrow> nat \<Rightarrow> runner \<Rightarrow> (py_error + nat) \<times> runner" where
  "keep_alive_loop w duration elapsed s =
     (if exited_by w (3 + elapsed) then (Inr elapsed, s)
      else
        (case call w LoopRun KeepAlive s of
           (Inl e, s1) \<Rightarrow> (Inl e, s1)
         | (Inr u, s1) \<Rightarrow>
             if duration + 60 \<le> int (elapsed + 1) then (Inr (elapsed + 1), s1)
             else keep_alive_loop w duration (elapsed + 1) s1))"
  by pat_completeness auto
termination
  by (relation "measure (\<lambda>(w, duration, elapsed, s). nat (duration + 60 - int elapsed))") auto

declare keep_alive_loop.simps [simp del]

text \<open>
  Lines 106-122, \<open>wait_for_locust_completion\<close>, called \<open>now\<close> seconds after the
  launch: \<open>wait\<close> returns if the process exits within the timeout and raises
  TimeoutExpired otherwise; the log file is closed in either case.
\<close>

definition wait_for_locust_completion :: "world \<Rightarrow> nat \<Rightarrow> nat \<Rightarrow> runner \<Rightarrow> bool \<times> runner" where
  "wait_for_locust_completion w now timeout s =
     (case locust_process s of
        None \<Rightarrow> (False, s)
      | Some p \<Rightarrow>
          (let closed = (if locust_log_file s then emit CloseLog (s\<lparr>locust_log_file := False\<rparr>)
                         else s)
           in if exited_by w (now + timeout)
              then (exit_code w = 0, closed\<lparr>locust_process := Some (p\<lparr>alive := False\<rparr>)\<rparr>)
              else (False, closed)))"

text \<open>
  Lines 124-132, \<open>stop_locust\<close>: \<open>terminate()\<close>, and \<open>kill()\<close> if the process
  is still running 10 seconds later.
\<close>

definition stop_locust :: "runner \<Rightarrow> runner" where
  "stop_locust s =
     (case locust_process s of
        None \<Rightarrow> s
      | Some p \<Rightarrow>
          (let s1 = emit Terminate s;
               s2 = (if alive p \<and> stubborn p then emit Kill s1 else s1)
           in s2\<lparr>locust_process := None\<rparr>))"

text \<open>
  Lines 180-200: what follows a clean exit of Locust, up to the summary. The
  CSV metrics are inserted if there are any, the aggregate if it is neither
  None nor an empty dict.
\<close>

definition persist_results :: "world \<Rightarrow> string \<Rightarrow> string \<Rightarrow> runner \<Rightarrow> (py_error + unit) \<times> runner" where
  "persist_results w run_id csv_prefix s =
     (case call w NatsUnsubscribe StopCollecting s of
        (Inl e, s1) \<Rightarrow> (Inl e, s1)
      | (Inr u, s1) \<Rightarrow>
     (let s2 = emit (ExtractMetrics csv_prefix) (emit (Sleep 2) s1)
      in case extract_metrics (files w) csv_prefix of
           Inl e \<Rightarrow> (Inl e, s2)
         | Inr locust_metrics \<Rightarrow>
     (case (if locust_metrics \<noteq> []
            then call w DbInsertLocust (InsertLocustMetrics run_id locust_metrics) s2
            else (Inr (), s2)) of
        (Inl e, s3) \<Rightarrow> (Inl e, s3)
      | (Inr u, s3) \<Rightarrow>
     (let s4 = emit GetAggregatedMetrics s3
      in case aggregate_metrics (arithmetic w) (delivered w) of
           Inl e \<Rightarrow> (Inl e, s4)
         | Inr db_metrics \<Rightarrow>
     (case (case db_metrics of
              None \<Rightarrow> (Inr (), s4)
            | Some d \<Rightarrow>
                if d \<noteq> [] then call w DbInsertCollector (InsertCollectorMetrics run_id d) s4
                else (Inr (), s4)) of
        (Inl e, s5) \<Rightarrow> (Inl e, s5)
      | (Inr u, s5) \<Rightarrow> call w DbCreateSummary (CreateRunSummary run_id) s5)))))"

text \<open>Lines 180-208: the results, then the cooldown, then \<open>return True\<close>.\<close>

definition record_results :: "world \<Rightarrow> string \<Rightarrow> string \<Rightarrow> int \<Rightarrow> runner \<Rightarrow> (py_error + bool) \<times> runner" where
  "record_results w run_id csv_prefix cooldown s =
     (case persist_results w run_id csv_prefix s of
        (Inl e, s5) \<Rightarrow> (Inl e, s5)
      | (Inr u, s5) \<Rightarrow>
          (Inr True, if 0 < cooldown then emit (Cooldown cooldown) s5 else s5))"

text \<open>Lines 161-208: the body of the \<open>with\<close> statement.\<close>

definition with_collector :: "world \<Rightarrow> string \<Rightarrow> string \<Rightarrow> int \<Rightarrow> int \<Rightarrow> int \<Rightarrow> runner \<Rightarrow> (py_error + bool) \<times> runner" where
  "with_collector w run_id csv_prefix user_count duration cooldown s =
     (case call w NatsSubscribe StartCollecting s of
        (Inl e, s1) \<Rightarrow> (Inl e, s1)
      | (Inr u, s1) \<Rightarrow>
     (case start_locust w run_id user_count duration (emit (Sleep 2) s1) of
        (Inl e, s2) \<Rightarrow> (Inl e, s2)
      | (Inr False, s2) \<Rightarrow> (Inr False, s2)
      | (Inr True, s2) \<Rightarrow>
     (case keep_alive_loop w duration 0 s2 of
        (Inl e, s3) \<Rightarrow> (Inl e, s3)
      | (Inr elapsed, s3) \<Rightarrow>
     (case wait_for_locust_completion w (3 + elapsed) 30 s3 of
        (False, s4) \<Rightarrow> (Inr False, stop_locust s4)
      | (True, s4) \<Rightarrow> record_results w run_id csv_prefix cooldown s4))))"

text \<open>
  Lines 147-208: the \<open>try\<close> block. \<open>__exit__\<close> disconnects however the body of
  the \<open>with\<close> statement is left; an exception of its own replaces the body's
  result.
\<close>

definition run_body :: "world \<Rightarrow> int \<Rightarrow> int \<Rightarrow> int \<Rightarrow> runner \<Rightarrow> (py_error + bool) \<times> runner" where
  "run_body w user_count duration cooldown s =
     (let run_id = generate_run_id w s user_count;
          csv_prefix = os_path_join output_dir run_id
      in case call w DbCreateRun (CreateBenchmarkRun run_id user_count) s of
           (Inl e, s1) \<Rightarrow> (Inl e, s1)
         | (Inr u, s1) \<Rightarrow>
        (case call w NatsConnect Connect s1 of
           (Inl e, s2) \<Rightarrow> (Inl e, s2)
         | (Inr u, s2) \<Rightarrow>
        (case with_collector w run_id csv_prefix user_count duration cooldown s2 of
           (result, s3) \<Rightarrow>
        (case call w NatsDisconnect Disconnect s3 of
           (Inl e, s4) \<Rightarrow> (Inl e, s4)
         | (Inr u, s4) \<Rightarrow> (result, s4)))))"

text \<open>
  Lines 134-213, \<open>run_single_test\<close>: the \<open>except Exception\<close> clause stops Locust
  and returns False; what is no \<open>Exception\<close> leaves \<open>run_single_test\<close>.
\<close>

definition run_single_test :: "world \<Rightarrow> int \<Rightarrow> int \<Rightarrow> int \<Rightarrow> runner \<Rightarrow> (py_error + bool) \<times> runner" where
  "run_single_test w user_count duration cooldown s =
     (case run_body w user_count duration cooldown s of
        (Inl e, s1) \<Rightarrow> (if is_exception e then (Inr False, stop_locust s1) else (Inl e, s1))
      | (Inr result, s1) \<Rightarrow> (Inr result, s1))"

text \<open>
  Lines 215-234, \<open>run_benchmark_suite\<close>: the loop over \<open>enumerate(user_counts, 1)\<close>;
  \<open>worlds idx\<close> is the world during run \<open>idx\<close>. An exception that leaves
  \<open>run_single_test\<close> leaves the loop and \<open>run_benchmark_suite\<close>.
\<close>

fun suite_loop :: "(nat \<Rightarrow> world) \<Rightarrow> nat \<Rightarrow> int list \<Rightarrow> int \<Rightarrow> int \<Rightarrow> nat \<Rightarrow> runner \<Rightarrow> (py_error + nat) \<times> runner" where
  "suite_loop worlds idx [] duration cooldown success s = (Inr success, s)"
| "suite_loop worlds idx (users # rest) duration cooldown success s =
     (case run_single_test (worlds idx) users duration cooldown s of
        (Inl e, s1) \<Rightarrow> (Inl e, s1)
      | (Inr True, s1) \<Rightarrow> suite_loop worlds (idx + 1) rest duration cooldown (success + 1) s1
      | (Inr False, s1) \<Rightarrow> suite_loop worlds (idx + 1) rest duration cooldown success s1)"

definition run_benchmark_suite :: "(nat \<Rightarrow> world) \<Rightarrow> int list \<Rightarrow> int \<Rightarrow> int \<Rightarrow> runner \<Rightarrow> (py_error + bool) \<times> runner" where
  "run_benchmark_suite worlds user_counts duration cooldown s =
     (case suite_loop worlds 1 user_counts duration cooldown 0 s of
        (Inl e, s1) \<Rightarrow> (Inl e, s1)
      | (Inr success, s1) \<Rightarrow> (Inr (success = length user_counts), s1))"

section \<open>Vocabulary for the statements about aggregate_metrics\<close>

text \<open>
  The non-empty \<open>measurements\<close> dict of a sample, if it has one (a list of at
  most one element), and the test \<open>if measurements:\<close> of line 121.
\<close>

definition measured :: "sample \<Rightarrow> (string \<times> json) list list" where
  "measured metric =
     (case dict_get metric ''measurements'' (JObj []) of
        JObj d \<Rightarrow> (if d = [] then [] else [d])
      | _ \<Rightarrow> [])"

definition carries_measurements :: "sample \<Rightarrow> bool" where
  "carries_measurements metric = truthy (dict_get metric ''measurements'' (JObj []))"

text \<open>
  A sample the loop body accepts: its \<open>measurements\<close> value is falsy, or a dict
  whose \<open>cache_hit_rate\<close> is a number.
\<close>

definition sample_ok :: "sample \<Rightarrow> bool" where
  "sample_ok metric =
     (case dict_get metric ''measurements'' (JObj []) of
        JObj d \<Rightarrow> d = [] \<or> num_of (dict_get d ''cache_hit_rate'' (JInt 0)) \<noteq> None
      | v \<Rightarrow> \<not> truthy v)"

definition is_positive :: "json \<Rightarrow> bool" where
  "is_positive v = (gt_zero v = Inr True)"

text \<open>What one sample appends to each of the four lists.\<close>

definition conn_part :: "sample \<Rightarrow> (json \<times> json) list" where
  "conn_part metric =
     map (\<lambda>d. (dict_get d ''active_connections'' (JInt 0), dict_get d ''max_connections'' (JInt 100)))
       (measured metric)"

definition cache_part :: "sample \<Rightarrow> json list" where
  "cache_part metric =
     filter is_positive (map (\<lambda>d. dict_get d ''cache_hit_rate'' (JInt 0)) (measured metric))"

definition scan_part :: "sample \<Rightarrow> (json \<times> json) list" where
  "scan_part metric = map (\<lambda>d. (dict_get d ''sequential_scans'' (JInt 0), JInt 0)) (measured metric)"

definition has_health :: "sample \<Rightarrow> bool" where
  "has_health metric =
     (truthy (dict_get metric ''connection_health'' (JInt 0))
      \<or> truthy (dict_get metric ''query_health'' (JInt 0))
      \<or> truthy (dict_get metric ''cache_health'' (JInt 0))
      \<or> truthy (dict_get metric ''health_score'' (JInt 0)))"

definition health_part :: "sample \<Rightarrow> (json \<times> json \<times> json \<times> json) list" where
  "health_part metric =
     (if has_health metric
      then [(dict_get metric ''query_health'' (JInt 0), dict_get metric ''connection_health'' (JInt 0),
             dict_get metric ''cache_health'' (JInt 0), dict_get metric ''health_score'' (JInt 0))]
      else [])"

definition extend_lists :: "sample list \<Rightarrow> sample_lists \<Rightarrow> sample_lists" where
  "extend_lists ms acc =
     \<lparr>connection_samples = connection_samples acc @ concat (map conn_part ms),
      cache_samples = cache_samples acc @ concat (map cache_part ms),
      scan_samples = scan_samples acc @ concat (map scan_part ms),
      health_samples = health_samples acc @ concat (map health_part ms)\<rparr>"

text \<open>
  The readings a mean is taken over, in buffer order: the value of a
  measurement in every sample with non-empty measurements (0 where the sample
  does not report it), the cache hit rates among them that are greater than
  zero, and the value of a health score in every sample with a truthy health
  score (0 where the sample does not report it).
\<close>

definition readings :: "string \<Rightarrow> sample list \<Rightarrow> json list" where
  "readings key buf = map (\<lambda>d. dict_get d key (JInt 0)) (concat (map measured buf))"

definition positive_cache_rates :: "sample list \<Rightarrow> json list" where
  "positive_cache_rates buf = filter is_positive (readings ''cache_hit_rate'' buf)"

definition health_readings :: "string \<Rightarrow> sample list \<Rightarrow> json list" where
  "health_readings key buf = map (\<lambda>m. dict_get m key (JInt 0)) (filter has_health buf)"

text \<open>
  The readings of a measurement that are present in the sample and not zero: the
  samples the specification says a mean is taken over.
\<close>

definition present_nonzero :: "string \<Rightarrow> sample list \<Rightarrow> json list" where
  "present_nonzero key buf =
     filter truthy (List.map_filter (\<lambda>d. map_of d key) (concat (map measured buf)))"



text \<open>The mean and its truncation where they are defined.\<close>

definition the_mean :: "arith \<Rightarrow> json list \<Rightarrow> pyfloat" where
  "the_mean ar vs = (case py_mean ar vs of Inr m \<Rightarrow> m | Inl e \<Rightarrow> NaN)"

definition the_int :: "pyfloat \<Rightarrow> int" where
  "the_int x = (case int_of_float x of Inr i \<Rightarrow> i | Inl e \<Rightarrow> 0)"

definition mean_returns :: "arith \<Rightarrow> json list \<Rightarrow> bool" where
  "mean_returns ar vs = (vs = [] \<or> py_mean ar vs = Inr (the_mean ar vs))"

definition int_mean_returns :: "arith \<Rightarrow> json list \<Rightarrow> bool" where
  "int_mean_returns ar vs =
     (vs = [] \<or> (py_mean ar vs = Inr (the_mean ar vs)
                 \<and> int_of_float (the_mean ar vs) = Inr (the_int (the_mean ar vs))))"

text \<open>The items of the returned dict, from the four lists.\<close>

definition items_of :: "arith \<Rightarrow> sample_lists \<Rightarrow> (string \<times> json) list" where
  "items_of ar acc =
     (case connection_samples acc of [] \<Rightarrow> []
      | first # _ \<Rightarrow>
          [(''active_connections'', JInt (the_int (the_mean ar (map fst (connection_samples acc))))),
           (''max_connections'', snd first)])
     @ (if cache_samples acc = [] then []
        else [(''cache_hit_rate'', JFloat (round_float ar (the_mean ar (cache_samples acc)) 4))])
     @ (if scan_samples acc = [] then []
        else [(''sequential_scans'', JInt (the_int (the_mean ar (map fst (scan_samples acc))))),
              (''index_scans'', JInt 0)])
     @ (if health_samples acc = [] then []
        else [(''query_health'', JFloat (round_float ar (the_mean ar (map (\<lambda>(q, c, ch, ov). q) (health_samples acc))) 2)),
              (''connection_health'', JFloat (round_float ar (the_mean ar (map (\<lambda>(q, c, ch, ov). c) (health_samples acc))) 2)),
              (''cache_health'', JFloat (round_float ar (the_mean ar (map (\<lambda>(q, c, ch, ov). ch) (health_samples acc))) 2)),
              (''overall_health'', JFloat (round_float ar (the_mean ar (map (\<lambda>(q, c, ch, ov). ov) (health_samples acc))) 2))])"



section \<open>Vocabulary for the statements about extract_metrics\<close>

text \<open>
  A row without a None cell (no field is missing), and the metric the loop
  body appends for a row, if it appends one.
\<close>

definition full_row :: "csv_row \<Rightarrow> bool" where
  "full_row row = list_all (\<lambda>item. snd item \<noteq> None) row"

definition row_metric :: "csv_row \<Rightarrow> endpoint_metric option" where
  "row_metric row =
     (if map_of row ''Name'' = Some (Some ''Aggregated'') then None
      else
        (case stripped_field row ''Name'' '''' of Inl e \<Rightarrow> None | Inr name \<Rightarrow>
        (case stripped_field row ''Method'' ''GET'' of Inl e \<Rightarrow> None | Inr meth \<Rightarrow>
           (let (meth', ep) =
                  (if CHR '' '' \<in> set name
                   then (takeWhile (\<lambda>c. c \<noteq> CHR '' '') name,
                         tl (dropWhile (\<lambda>c. c \<noteq> CHR '' '') name))
                   else (meth, name))
            in case build_metric row ep meth' of Inr metric \<Rightarrow> Some metric | Inl e \<Rightarrow> None))))"

section \<open>Vocabulary for the statements about the runner\<close>

text \<open>
  The events of metrics extraction, health aggregation and persistence (lines
  185-200).
\<close>

fun is_results :: "event \<Rightarrow> bool" where
  "is_results (ExtractMetrics p) = True"
| "is_results (InsertLocustMetrics r ms) = True"
| "is_results GetAggregatedMetrics = True"
| "is_results (InsertCollectorMetrics r d) = True"
| "is_results (CreateRunSummary r) = True"
| "is_results _ = False"

text \<open>The event that starts a run, and the cooldown sleep.\<close>

fun is_create :: "event \<Rightarrow> bool" where
  "is_create (CreateBenchmarkRun r u) = True"
| "is_create _ = False"

fun is_cooldown :: "event \<Rightarrow> bool" where
  "is_cooldown (Cooldown c) = True"
| "is_cooldown _ = False"

text \<open>Every other event: connections, the process, the fixed sleeps.\<close>

definition lifecycle :: "event \<Rightarrow> bool" where
  "lifecycle ev = (\<not> is_results ev \<and> \<not> is_create ev \<and> \<not> is_cooldown ev)"

text \<open>\<open>s'\<close> has the events of \<open>s\<close> and, after them, only events of the kind \<open>P\<close>.\<close>

definition appends :: "(event \<Rightarrow> bool) \<Rightarrow> runner \<Rightarrow> runner \<Rightarrow> bool" where
  "appends P s s' = (\<exists>new. events s' = events s @ new \<and> list_all P new)"

text \<open>
  The most rounds the loop of lines 169-174 makes; the seconds after the launch
  at which the bounded wait gives up (the grace of 3 seconds, the loop's bound
  and the wait's timeout of 30 seconds); and the rounds the loop makes for a
  process that is running after the grace.
\<close>

definition loop_bound :: "int \<Rightarrow> nat" where
  "loop_bound duration = nat (max 1 (duration + 60))"

definition deadline :: "int \<Rightarrow> nat" where
  "deadline duration = 3 + loop_bound duration + 30"

definition rounds :: "world \<Rightarrow> int \<Rightarrow> nat" where
  "rounds w duration =
     (case lifetime w of
        None \<Rightarrow> loop_bound duration
      | Some l \<Rightarrow> min (loop_bound duration) (l - 3))"

text \<open>Events that neither start a run nor are a cooldown.\<close>

definition quiet :: "event \<Rightarrow> bool" where
  "quiet ev = (\<not> is_create ev \<and> \<not> is_cooldown ev)"


text \<open>The external call an event records, and whether that call returned.\<close>

fun call_of :: "event \<Rightarrow> ext_call option" where
  "call_of (CreateBenchmarkRun r u) = Some DbCreateRun"
| "call_of Connect = Some NatsConnect"
| "call_of StartCollecting = Some NatsSubscribe"
| "call_of KeepAlive = Some LoopRun"
| "call_of StopCollecting = Some NatsUnsubscribe"
| "call_of Disconnect = Some NatsDisconnect"
| "call_of (OpenLog p) = Some LogOpen"
| "call_of (Popen u d) = Some ProcessSpawn"
| "call_of (InsertLocustMetrics r ms) = Some DbInsertLocust"
| "call_of (InsertCollectorMetrics r d) = Some DbInsertCollector"
| "call_of (CreateRunSummary r) = Some DbCreateSummary"
| "call_of _ = None"

definition returned :: "world \<Rightarrow> event \<Rightarrow> bool" where
  "returned w ev = (case call_of ev of None \<Rightarrow> True | Some c \<Rightarrow> raises w c = None)"

text \<open>The events of a run up to the end of the grace after the launch.\<close>

definition launch_events :: "string \<Rightarrow> int \<Rightarrow> int \<Rightarrow> event list" where
  "launch_events run_id user_count duration =
     [CreateBenchmarkRun run_id user_count, Connect, StartCollecting, Sleep 2,
      OpenLog (os_path_join output_dir (run_id @ ''.locust.log'')),
      Popen user_count duration, Sleep 3]"

text \<open>No external call raises.\<close>

definition undisturbed :: "world \<Rightarrow> bool" where
  "undisturbed w = (raises w = (\<lambda>c. None))"

section \<open>Arithmetic without rounding\<close>

text \<open>
  The concrete scenarios are computed with \<open>exact_arith\<close>, the arithmetic that
  returns every sum, quotient and decimal rounding exactly. It is what Python
  computes whenever the exact results are floats, as they are for the small
  integers of the scenarios; for the cache hit rates of the specification's
  scenario the floats differ from the exact results by less than \<open>10\<^sup>-\<^sup>1\<^sup>5\<close>,
  which the rounding to 4 places does not see.
\<close>

fun float_of_num :: "num \<Rightarrow> pyfloat" where
  "float_of_num (NInt i) = Finite (of_int i)"
| "float_of_num (NFloat x) = x"

fun float_add :: "pyfloat \<Rightarrow> pyfloat \<Rightarrow> pyfloat" where
  "float_add (Finite a) (Finite b) = Finite (a + b)"
| "float_add NaN y = NaN"
| "float_add x NaN = NaN"
| "float_add PosInf NegInf = NaN"
| "float_add NegInf PosInf = NaN"
| "float_add PosInf y = PosInf"
| "float_add x PosInf = PosInf"
| "float_add NegInf y = NegInf"
| "float_add x NegInf = NegInf"

text \<open>To \<open>n\<close> decimal places, ties to the even neighbour.\<close>

definition round_half_even :: "rat \<Rightarrow> int" where
  "round_half_even x =
     (let f = \<lfloor>x\<rfloor>; d = x - of_int f
      in if d < 1 / 2 then f else if 1 / 2 < d then f + 1 else if even f then f else f + 1)"

definition round_decimal :: "rat \<Rightarrow> nat \<Rightarrow> rat" where
  "round_decimal x n = of_int (round_half_even (x * 10 ^ n)) / 10 ^ n"

definition exact_arith :: arith where
  "exact_arith =
     \<lparr>float_sum = (\<lambda>ns. Some (foldl float_add (Finite 0) (map float_of_num ns))),
      true_div = (\<lambda>x n. Some (case float_of_num x of Finite r \<Rightarrow> Finite (r / of_nat n) | y \<Rightarrow> y)),
      round_float = (\<lambda>x n. case x of Finite r \<Rightarrow> Finite (round_decimal r n) | y \<Rightarrow> y)\<rparr>"

text \<open>
  Scenario buffers: five samples with the cache hit rates of the specification's
  scenario, samples that report only \<open>max_connections\<close>, and samples with
  integer readings.
\<close>

definition cache_sample :: "rat \<Rightarrow> sample" where
  "cache_sample r = [(''measurements'', JObj [(''cache_hit_rate'', JFloat (Finite r))]),
                     (''_received_at'', JStr ''2026-01-01T00:00:00'')]"

definition cache_scenario :: "sample list" where
  "cache_scenario = [cache_sample (9 / 10), cache_sample 0, cache_sample (8 / 10), cache_sample 0,
                     cache_sample (95 / 100)]"



section \<open>Scenarios\<close>

text \<open>A runner that has not run anything yet.\<close>

definition fresh_runner :: runner where
  "fresh_runner = \<lparr>app_name = ''shop'', stage = 0, locust_process = None,
                    locust_log_file = False, events = []\<rparr>"

text \<open>
  A stats file of one endpoint row and the aggregated row, found under the
  prefix of the run with 50 users, and the metric of its endpoint row.
\<close>

definition stats_table :: csv_table where
  "stats_table = [[''Type'', ''Name'', ''Request Count'', ''Failure Count''],
                  [''GET'', ''/api/posts'', ''120'', ''0''],
                  ['''', ''Aggregated'', ''120'', ''0'']]"

definition scenario_files :: filesystem where
  "scenario_files path =
     (if path = ''outputs/shop_stage0_u50_20260101_120000_stats.csv'' then Some stats_table
      else None)"

text \<open>
  A world given by the calls that raise, the lifetime of Locust and its exit
  code; Locust obeys \<open>terminate()\<close> and the collector's buffer is empty.
\<close>

definition scenario_world :: "(ext_call \<Rightarrow> py_error option) \<Rightarrow> nat option \<Rightarrow> int \<Rightarrow> world" where
  "scenario_world raising life code =
     \<lparr>raises = raising, lifetime = life, exit_code = code, ignores_terminate = False,
      files = scenario_files, delivered = [], timestamp = ''20260101_120000'',
      arithmetic = exact_arith\<rparr>"

definition posts_metric :: endpoint_metric where
  "posts_metric = \<lparr>endpoint = ''/api/posts'', http_method = ''GET'', request_count = 120,
      failure_count = 0, median_response_time = Finite 0, average_response_time = Finite 0,
      min_response_time = Finite 0, max_response_time = Finite 0, p50_response_time = Finite 0,
      p95_response_time = Finite 0, p99_response_time = Finite 0,
      requests_per_second = Finite 0, failures_per_second = Finite 0\<rparr>"

text \<open>
  Stats files whose first data row is cut short after the name, or has text
  that is no number in a numeric field; the metric of their last row.
\<close>

definition short_row_table :: csv_table where
  "short_row_table = [[''Type'', ''Name'', ''Request Count'', ''Failure Count''],
                      [''GET'', ''/api/posts''],
                      [''GET'', ''/api/users'', ''3'', ''0'']]"

definition unparseable_row_table :: csv_table where
  "unparseable_row_table = [[''Type'', ''Name'', ''Request Count'', ''Failure Count''],
                            [''GET'', ''/api/posts'', ''N/A'', ''0''],
                            [''GET'', ''/api/users'', ''3'', ''0'']]"

definition users_metric :: endpoint_metric where
  "users_metric = \<lparr>endpoint = ''/api/users'', http_method = ''GET'', request_count = 3,
      failure_count = 0, median_response_time = Finite 0, average_response_time = Finite 0,
      min_response_time = Finite 0, max_response_time = Finite 0, p50_response_time = Finite 0,
      p95_response_time = Finite 0, p99_response_time = Finite 0,
      requests_per_second = Finite 0, failures_per_second = Finite 0\<rparr>"

text \<open>
  Worlds in which no call raises: Locust exits 13 seconds after its launch with
  code 1, or with code 0; it never exits, obeying \<open>terminate()\<close> or not; it
  exits with code 0 after 80 seconds, when a run of 10 seconds has left the
  loop and waits.
\<close>

definition exit_1_world :: world where
  "exit_1_world = scenario_world (\<lambda>c. None) (Some 13) 1"

definition clean_world :: world where
  "clean_world = scenario_world (\<lambda>c. None) (Some 13) 0"

definition hung_world :: world where
  "hung_world = scenario_world (\<lambda>c. None) None 0"

definition stubborn_world :: world where
  "stubborn_world = hung_world\<lparr>ignores_terminate := True\<rparr>"

definition late_exit_world :: world where
  "late_exit_world = scenario_world (\<lambda>c. None) (Some 80) 0"

text \<open>
  Worlds in which Locust never exits and does not obey \<open>terminate()\<close>, and the
  first \<open>keep_alive\<close> raises: an exception of the NATS client, or the
  \<open>KeyboardInterrupt\<close> of a Ctrl-C.
\<close>

definition loop_error_world :: world where
  "loop_error_world =
     (scenario_world (\<lambda>c. if c = LoopRun then Some ExternalError else None) None 0)
       \<lparr>ignores_terminate := True\<rparr>"

definition interrupt_world :: world where
  "interrupt_world =
     (scenario_world (\<lambda>c. if c = LoopRun then Some KeyboardInterrupt else None) None 0)
       \<lparr>ignores_terminate := True\<rparr>"

text \<open>The run ids of the scenario for 50 and for 100 users.\<close>

definition run_50 :: string where
  "run_50 = ''shop_stage0_u50_20260101_120000''"

definition run_100 :: string where
  "run_100 = ''shop_stage0_u100_20260101_120000''"

section \<open>Lemmas about aggregate_metrics\<close>

lemma parse_measurements_ok:
  "sample_ok m \<Longrightarrow> parse_measurements m acc =
     Inr (acc\<lparr>connection_samples := connection_samples acc @ conn_part m,
              cache_samples := cache_samples acc @ cache_part m,
              scan_samples := scan_samples acc @ scan_part m\<rparr>)"
  by (cases "dict_get m ''measurements'' (JObj [])")
     (auto simp: parse_measurements_def sample_ok_def measured_def conn_part_def cache_part_def
        scan_part_def gt_zero_def is_positive_def Let_def split: option.splits num.splits)

lemma parse_measurements_bad:
  "\<not> sample_ok m \<Longrightarrow> \<exists>e. parse_measurements m acc = Inl e"
  by (cases "dict_get m ''measurements'' (JObj [])")
     (auto simp: parse_measurements_def sample_ok_def gt_zero_def Let_def split: option.splits)

lemma parse_health_eq:
  "parse_health m acc = acc\<lparr>health_samples := health_samples acc @ health_part m\<rparr>"
  by (simp add: parse_health_def health_part_def has_health_def Let_def)

lemma collect_samples_ok:
  "list_all sample_ok ms \<Longrightarrow> collect_samples ms acc = Inr (extend_lists ms acc)"
proof (induction ms arbitrary: acc)
  case Nil
  show ?case by (simp add: extend_lists_def)
next
  case (Cons m ms)
  then have ok: "sample_ok m" and rest: "list_all sample_ok ms" by simp_all
  show ?case
    by (simp add: parse_measurements_ok [OF ok] Cons.IH [OF rest] parse_health_eq extend_lists_def)
qed

lemma collect_samples_bad:
  "\<not> list_all sample_ok ms \<Longrightarrow> \<exists>e. collect_samples ms acc = Inl e"
proof (induction ms arbitrary: acc)
  case Nil
  then show ?case by simp
next
  case (Cons m ms)
  show ?case
  proof (cases "sample_ok m")
    case True
    with Cons.prems have "\<not> list_all sample_ok ms" by simp
    from Cons.IH [OF this] show ?thesis by (simp add: parse_measurements_ok [OF True])
  next
    case False
    from parse_measurements_bad [OF this, of acc] obtain e where "parse_measurements m acc = Inl e" ..
    then show ?thesis by simp
  qed
qed

lemma collect_samples_Inr:
  "collect_samples ms acc = Inr acc' \<Longrightarrow> list_all sample_ok ms \<and> acc' = extend_lists ms acc"
  using collect_samples_ok [of ms acc] collect_samples_bad [of ms acc] by (cases "list_all sample_ok ms") auto





lemma add_connections_Inr:
  assumes "add_connections ar acc a = Inr a'"
  shows "a' = a @ (case connection_samples acc of [] \<Rightarrow> []
           | first # _ \<Rightarrow>
               [(''active_connections'', JInt (the_int (the_mean ar (map fst (connection_samples acc))))),
                (''max_connections'', snd first)])
       \<and> int_mean_returns ar (map fst (connection_samples acc))"
  using assms
  by (auto simp: add_connections_def the_mean_def the_int_def int_mean_returns_def
        split: list.splits sum.splits)

lemma add_cache_Inr:
  assumes "add_cache ar acc a = Inr a'"
  shows "a' = a @ (if cache_samples acc = [] then []
           else [(''cache_hit_rate'', JFloat (round_float ar (the_mean ar (cache_samples acc)) 4))])
       \<and> mean_returns ar (cache_samples acc)"
  using assms
  by (auto simp: add_cache_def the_mean_def mean_returns_def split: if_splits sum.splits)

lemma add_scans_Inr:
  assumes "add_scans ar acc a = Inr a'"
  shows "a' = a @ (if scan_samples acc = [] then []
           else [(''sequential_scans'', JInt (the_int (the_mean ar (map fst (scan_samples acc))))),
                 (''index_scans'', JInt 0)])
       \<and> int_mean_returns ar (map fst (scan_samples acc))"
  using assms
  by (auto simp: add_scans_def the_mean_def the_int_def int_mean_returns_def
        split: if_splits sum.splits)

lemma add_health_Inr:
  assumes "add_health ar acc a = Inr a'"
  shows "a' = a @ (if health_samples acc = [] then []
           else [(''query_health'', JFloat (round_float ar (the_mean ar (map (\<lambda>(q, c, ch, ov). q) (health_samples acc))) 2)),
                 (''connection_health'', JFloat (round_float ar (the_mean ar (map (\<lambda>(q, c, ch, ov). c) (health_samples acc))) 2)),
                 (''cache_health'', JFloat (round_float ar (the_mean ar (map (\<lambda>(q, c, ch, ov). ch) (health_samples acc))) 2)),
                 (''overall_health'', JFloat (round_float ar (the_mean ar (map (\<lambda>(q, c, ch, ov). ov) (health_samples acc))) 2))])
       \<and> mean_returns ar (map (\<lambda>(q, c, ch, ov). q) (health_samples acc))
       \<and> mean_returns ar (map (\<lambda>(q, c, ch, ov). c) (health_samples acc))
       \<and> mean_returns ar (map (\<lambda>(q, c, ch, ov). ch) (health_samples acc))
       \<and> mean_returns ar (map (\<lambda>(q, c, ch, ov). ov) (health_samples acc))"
  using assms
  by (auto simp: add_health_def the_mean_def mean_returns_def split: if_splits sum.splits)

lemma aggregate_metrics_Some:
  assumes "aggregate_metrics ar buf = Inr (Some a)"
  obtains acc a1 a2 a3 where "buf \<noteq> []" and "collect_samples buf empty_lists = Inr acc"
    and "add_connections ar acc [] = Inr a1" and "add_cache ar acc a1 = Inr a2"
    and "add_scans ar acc a2 = Inr a3" and "add_health ar acc a3 = Inr a"
  using assms by (auto simp: aggregate_metrics_def split: if_splits sum.splits)

lemma measured_truthy:
  "sample_ok m \<Longrightarrow> (measured m \<noteq> []) = truthy (dict_get m ''measurements'' (JObj []))"
  by (cases "dict_get m ''measurements'' (JObj [])") (auto simp: sample_ok_def measured_def)

lemma concat_map_nonempty:
  "(concat (map f xs) \<noteq> []) = (\<exists>x\<in>set xs. f x \<noteq> [])"
  by (induction xs) auto

lemma aggregate_metrics_items:
  assumes "aggregate_metrics ar buf = Inr (Some a)"
  shows "list_all sample_ok buf \<and> buf \<noteq> [] \<and> a = items_of ar (extend_lists buf empty_lists)"
proof -
  from assms obtain acc a1 a2 a3 where ne: "buf \<noteq> []"
    and c: "collect_samples buf empty_lists = Inr acc"
    and 1: "add_connections ar acc [] = Inr a1" and 2: "add_cache ar acc a1 = Inr a2"
    and 3: "add_scans ar acc a2 = Inr a3" and 4: "add_health ar acc a3 = Inr a"
    by (rule aggregate_metrics_Some)
  from collect_samples_Inr [OF c] have ok: "list_all sample_ok buf" and e: "acc = extend_lists buf empty_lists"
    by simp_all
  have "a = items_of ar acc"
    unfolding add_health_Inr [OF 4, THEN conjunct1] add_scans_Inr [OF 3, THEN conjunct1]
      add_cache_Inr [OF 2, THEN conjunct1] add_connections_Inr [OF 1, THEN conjunct1]
      items_of_def by simp
  with ok ne e show ?thesis by simp
qed

lemma means_return:
  assumes "aggregate_metrics ar buf = Inr (Some a)"
  shows "int_mean_returns ar (map fst (connection_samples (extend_lists buf empty_lists)))"
    and "mean_returns ar (cache_samples (extend_lists buf empty_lists))"
    and "int_mean_returns ar (map fst (scan_samples (extend_lists buf empty_lists)))"
    and "mean_returns ar (map (\<lambda>(q, c, ch, ov). q) (health_samples (extend_lists buf empty_lists)))"
    and "mean_returns ar (map (\<lambda>(q, c, ch, ov). c) (health_samples (extend_lists buf empty_lists)))"
    and "mean_returns ar (map (\<lambda>(q, c, ch, ov). ch) (health_samples (extend_lists buf empty_lists)))"
    and "mean_returns ar (map (\<lambda>(q, c, ch, ov). ov) (health_samples (extend_lists buf empty_lists)))"
proof -
  from assms obtain acc a1 a2 a3 where ne: "buf \<noteq> []"
    and c: "collect_samples buf empty_lists = Inr acc"
    and 1: "add_connections ar acc [] = Inr a1" and 2: "add_cache ar acc a1 = Inr a2"
    and 3: "add_scans ar acc a2 = Inr a3" and 4: "add_health ar acc a3 = Inr a"
    by (rule aggregate_metrics_Some)
  from collect_samples_Inr [OF c] have e: "extend_lists buf empty_lists = acc"
    by simp
  show "int_mean_returns ar (map fst (connection_samples (extend_lists buf empty_lists)))"
    unfolding e using add_connections_Inr [OF 1] by simp
  show "mean_returns ar (cache_samples (extend_lists buf empty_lists))"
    unfolding e using add_cache_Inr [OF 2] by simp
  show "int_mean_returns ar (map fst (scan_samples (extend_lists buf empty_lists)))"
    unfolding e using add_scans_Inr [OF 3] by simp
  show "mean_returns ar (map (\<lambda>(q, c, ch, ov). q) (health_samples (extend_lists buf empty_lists)))"
    unfolding e using add_health_Inr [OF 4] by simp
  show "mean_returns ar (map (\<lambda>(q, c, ch, ov). c) (health_samples (extend_lists buf empty_lists)))"
    unfolding e using add_health_Inr [OF 4] by simp
  show "mean_returns ar (map (\<lambda>(q, c, ch, ov). ch) (health_samples (extend_lists buf empty_lists)))"
    unfolding e using add_health_Inr [OF 4] by simp
  show "mean_returns ar (map (\<lambda>(q, c, ch, ov). ov) (health_samples (extend_lists buf empty_lists)))"
    unfolding e using add_health_Inr [OF 4] by simp
qed

lemma scan_samples_extend:
  "scan_samples (extend_lists buf empty_lists) = concat (map scan_part buf)"
  by (simp add: extend_lists_def empty_lists_def)

lemma items_active:
  "map_of (items_of ar acc) ''active_connections'' =
     (if connection_samples acc = [] then None
      else Some (JInt (the_int (the_mean ar (map fst (connection_samples acc))))))"
  by (simp add: items_of_def split: list.splits)

lemma items_cache:
  "map_of (items_of ar acc) ''cache_hit_rate'' =
     (if cache_samples acc = [] then None
      else Some (JFloat (round_float ar (the_mean ar (cache_samples acc)) 4)))"
  by (simp add: items_of_def split: list.splits)

lemma items_scans:
  "map_of (items_of ar acc) ''sequential_scans'' =
     (if scan_samples acc = [] then None
      else Some (JInt (the_int (the_mean ar (map fst (scan_samples acc))))))"
  by (simp add: items_of_def split: list.splits)

lemma items_query:
  "map_of (items_of ar acc) ''query_health'' =
     (if health_samples acc = [] then None
      else Some (JFloat (round_float ar (the_mean ar (map (\<lambda>(q, c, ch, ov). q) (health_samples acc))) 2)))"
  by (simp add: items_of_def split: list.splits)

lemma items_connection_health:
  "map_of (items_of ar acc) ''connection_health'' =
     (if health_samples acc = [] then None
      else Some (JFloat (round_float ar (the_mean ar (map (\<lambda>(q, c, ch, ov). c) (health_samples acc))) 2)))"
  by (simp add: items_of_def split: list.splits)

lemma items_cache_health:
  "map_of (items_of ar acc) ''cache_health'' =
     (if health_samples acc = [] then None
      else Some (JFloat (round_float ar (the_mean ar (map (\<lambda>(q, c, ch, ov). ch) (health_samples acc))) 2)))"
  by (simp add: items_of_def split: list.splits)

lemma items_overall:
  "map_of (items_of ar acc) ''overall_health'' =
     (if health_samples acc = [] then None
      else Some (JFloat (round_float ar (the_mean ar (map (\<lambda>(q, c, ch, ov). ov) (health_samples acc))) 2)))"
  by (simp add: items_of_def split: list.splits)
















lemmas agg_eval = aggregate_metrics_def empty_lists_def parse_measurements_def parse_health_def
        dict_get_def gt_zero_def add_connections_def add_cache_def add_scans_def add_health_def
        py_mean_def py_sum_def py_trunc_def round_decimal_def round_half_even_def Let_def
        exact_arith_def

lemma floor_rat_numeral:
  "\<lfloor>numeral a / numeral b :: rat\<rfloor> = numeral a div numeral b"
  by (metis floor_divide_of_int_eq of_int_numeral)

lemma conn_fst_extend:
  "map fst (connection_samples (extend_lists buf empty_lists)) = readings ''active_connections'' buf"
  unfolding readings_def
  by (induction buf) (simp_all add: extend_lists_def empty_lists_def conn_part_def comp_def)

lemma scan_fst_extend:
  "map fst (scan_samples (extend_lists buf empty_lists)) = readings ''sequential_scans'' buf"
  unfolding readings_def
  by (induction buf) (simp_all add: extend_lists_def empty_lists_def scan_part_def comp_def)

lemma cache_extend:
  "cache_samples (extend_lists buf empty_lists) = positive_cache_rates buf"
  unfolding positive_cache_rates_def readings_def
  by (induction buf) (simp_all add: extend_lists_def empty_lists_def cache_part_def)

lemma health_extend:
  "health_samples (extend_lists buf empty_lists) =
     map (\<lambda>m. (dict_get m ''query_health'' (JInt 0), dict_get m ''connection_health'' (JInt 0),
               dict_get m ''cache_health'' (JInt 0), dict_get m ''health_score'' (JInt 0)))
       (filter has_health buf)"
  by (induction buf) (simp_all add: extend_lists_def empty_lists_def health_part_def)

lemma health_projections:
  "map (\<lambda>(q, c, ch, ov). q) (health_samples (extend_lists buf empty_lists))
     = health_readings ''query_health'' buf"
  "map (\<lambda>(q, c, ch, ov). c) (health_samples (extend_lists buf empty_lists))
     = health_readings ''connection_health'' buf"
  "map (\<lambda>(q, c, ch, ov). ch) (health_samples (extend_lists buf empty_lists))
     = health_readings ''cache_health'' buf"
  "map (\<lambda>(q, c, ch, ov). ov) (health_samples (extend_lists buf empty_lists))
     = health_readings ''health_score'' buf"
  by (simp_all add: health_extend health_readings_def comp_def)

lemma measured_empty:
  assumes "list_all sample_ok buf"
  shows "(concat (map measured buf) = []) = (filter carries_measurements buf = [])"
  using assms by (induction buf) (simp_all add: carries_measurements_def measured_truthy [symmetric])

lemma readings_length:
  assumes "list_all sample_ok buf"
  shows "length (readings key buf) = length (filter carries_measurements buf)"
  using assms
  by (induction buf)
     (simp_all add: readings_def carries_measurements_def measured_truthy [symmetric] measured_def
        split: json.splits)

lemma cache_scenario_run:
  "aggregate_metrics exact_arith cache_scenario =
     Inr (Some [(''active_connections'', JInt 0), (''max_connections'', JInt 100),
                (''cache_hit_rate'', JFloat (Finite (8833 / 10000))),
                (''sequential_scans'', JInt 0), (''index_scans'', JInt 0)])"
  by (simp add: cache_scenario_def cache_sample_def agg_eval floor_rat_numeral)

section \<open>Lemmas about extract_metrics\<close>

text \<open>
  On a file none of whose records is shorter than the header, extract_metrics
  does not raise: it returns the metrics of the rows that are not the
  aggregated row and whose numbers parse, one per row and in the file's order.
\<close>

lemma full_row_cell: "full_row row \<Longrightarrow> map_of row key \<noteq> Some None"
proof
  assume f: "full_row row" and m: "map_of row key = Some None"
  from m have "(key, None) \<in> set row" by (rule map_of_SomeD)
  with f show False by (auto simp: full_row_def list_all_iff)
qed

lemma full_row_stripped:
  "full_row row \<Longrightarrow> \<exists>s. stripped_field row key dflt = Inr s"
  using full_row_cell [of row key]
  by (auto simp: stripped_field_def split: option.splits)

lemma full_row_int:
  "full_row row \<Longrightarrow> int_field row key = Inl e \<Longrightarrow> e = ValueError"
  using full_row_cell [of row key]
  by (auto simp: int_field_def int_cell_def split: option.splits)

lemma full_row_float:
  "full_row row \<Longrightarrow> float_field row key = Inl e \<Longrightarrow> e = ValueError"
  using full_row_cell [of row key]
  by (auto simp: float_field_def float_cell_def split: option.splits)

lemma full_row_p50:
  "full_row row \<Longrightarrow>
   (case map_of row ''50%'' of None \<Rightarrow> float_field row ''Median Response Time''
    | Some v \<Rightarrow> float_cell v) = Inl e \<Longrightarrow> e = ValueError"
  using full_row_cell [of row "''50%''"] full_row_float [of row "''Median Response Time''" e]
  by (auto simp: float_cell_def split: option.splits)

lemma full_row_build:
  assumes "full_row row" and "build_metric row ep meth = Inl e"
  shows "e = ValueError"
  using assms(2) full_row_int [OF assms(1)] full_row_float [OF assms(1)] full_row_p50 [OF assms(1)]
  unfolding build_metric_def
  by (auto split: sum.splits)

lemma extract_rows_full:
  "list_all full_row rows \<Longrightarrow>
     extract_rows rows metrics = Inr (metrics @ List.map_filter row_metric rows)"
proof (induction rows arbitrary: metrics)
  case Nil
  show ?case by simp
next
  case (Cons row rows)
  then have f: "full_row row" and r: "list_all full_row rows" by simp_all
  note ih = Cons.IH [OF r]
  show ?case
  proof (cases "map_of row ''Name'' = Some (Some ''Aggregated'')")
    case True
    then show ?thesis by (simp add: ih row_metric_def)
  next
    case False
    from full_row_stripped [OF f] obtain name where
      n: "stripped_field row ''Name'' '''' = Inr name" by blast
    from full_row_stripped [OF f] obtain meth where
      m: "stripped_field row ''Method'' ''GET'' = Inr meth" by blast
    obtain meth' ep where
      s: "(if CHR '' '' \<in> set name
           then (takeWhile (\<lambda>c. c \<noteq> CHR '' '') name, tl (dropWhile (\<lambda>c. c \<noteq> CHR '' '') name))
           else (meth, name)) = (meth', ep)"
      by (cases "(if CHR '' '' \<in> set name
           then (takeWhile (\<lambda>c. c \<noteq> CHR '' '') name, tl (dropWhile (\<lambda>c. c \<noteq> CHR '' '') name))
           else (meth, name))") blast
    show ?thesis
    proof (cases "build_metric row ep meth'")
      case (Inl e)
      with full_row_build [OF f] have e: "build_metric row ep meth' = Inl ValueError" by blast
      have "extract_rows (row # rows) metrics = extract_rows rows metrics"
        using False n m s e by simp
      moreover have "row_metric row = None"
        using False n m s e by (simp add: row_metric_def)
      ultimately show ?thesis by (simp add: ih)
    next
      case (Inr metric)
      have "extract_rows (row # rows) metrics = extract_rows rows (metrics @ [metric])"
        using False n m s Inr by simp
      moreover have "row_metric row = Some metric"
        using False n m s Inr by (simp add: row_metric_def)
      ultimately show ?thesis by (simp add: ih)
    qed
  qed
qed

lemma dict_row_full:
  "length fieldnames \<le> length record \<Longrightarrow> full_row (dict_row fieldnames record)"
  by (auto simp: full_row_def dict_row_def list_all_iff dest!: set_zip_rightD)

lemma extract_metrics_rectangular:
  assumes "fs (csv_prefix @ ''_stats.csv'') = Some (fieldnames # records)"
    and "list_all (\<lambda>record. length fieldnames \<le> length record \<or> record = []) records"
  shows "extract_metrics fs csv_prefix =
           Inr (List.map_filter row_metric (DictReader (fieldnames # records)))"
proof -
  have "list_all full_row (DictReader (fieldnames # records))"
    using assms(2) by (auto simp: list_all_iff dict_row_full)
  from extract_rows_full [OF this, of "[]"] assms(1) show ?thesis
    by (simp add: extract_metrics_def)
qed

section \<open>Lemmas about the runner\<close>

lemma appends_refl: "appends P s s"
  by (simp add: appends_def)

lemma appends_trans: "appends P s s1 \<Longrightarrow> appends P s1 s2 \<Longrightarrow> appends P s s2"
  by (auto simp: appends_def)

lemma appends_mono: "appends P s s' \<Longrightarrow> (\<And>ev. P ev \<Longrightarrow> Q ev) \<Longrightarrow> appends Q s s'"
  by (auto simp: appends_def list_all_iff)

lemma appends_emit: "P ev \<Longrightarrow> appends P s (emit ev s)"
  by (simp add: appends_def emit_def)


lemma emit_process: "locust_process (emit ev s) = locust_process s"
  by (simp add: emit_def)

lemma call_cases:
  assumes "call w c ev s = (r, s')"
  shows "s' = emit ev s" and "r = (case raises w c of None \<Rightarrow> Inr () | Some e \<Rightarrow> Inl e)"
  using assms by (auto simp: call_def)

lemma call_Inr:
  "call w c ev s = (Inr u, s') \<Longrightarrow> raises w c = None \<and> s' = emit ev s"
  by (auto simp: call_def split: option.splits)

lemma call_Inl:
  "call w c ev s = (Inl e, s') \<Longrightarrow> raises w c = Some e \<and> s' = emit ev s"
  by (auto simp: call_def split: option.splits)

lemma launch_cases:
  assumes "launch w run_id u d s = (r, s')"
  obtains (open_raised) e where "raises w LogOpen = Some e" and "r = Inl e"
      and "s' = emit (OpenLog (os_path_join output_dir (run_id @ ''.locust.log''))) s"
    | (spawn_raised) e where "raises w LogOpen = None" and "raises w ProcessSpawn = Some e"
      and "r = Inl e"
      and "s' = emit (Popen u d)
             ((emit (OpenLog (os_path_join output_dir (run_id @ ''.locust.log''))) s)
                \<lparr>locust_log_file := True\<rparr>)"
    | (exited) "raises w LogOpen = None" and "raises w ProcessSpawn = None"
      and "exited_by w 3" and "r = Inr False"
      and "s' = s\<lparr>locust_log_file := True,
                  locust_process := Some \<lparr>alive = False, stubborn = ignores_terminate w\<rparr>,
                  events := events s
                    @ [OpenLog (os_path_join output_dir (run_id @ ''.locust.log'')), Popen u d,
                       Sleep 3]\<rparr>"
    | (running) "raises w LogOpen = None" and "raises w ProcessSpawn = None"
      and "\<not> exited_by w 3" and "r = Inr True"
      and "s' = s\<lparr>locust_log_file := True,
                  locust_process := Some \<lparr>alive = True, stubborn = ignores_terminate w\<rparr>,
                  events := events s
                    @ [OpenLog (os_path_join output_dir (run_id @ ''.locust.log'')), Popen u d,
                       Sleep 3]\<rparr>"
  using assms
  by (auto simp: launch_def call_def emit_def Let_def split: option.splits if_splits)

lemma start_locust_cases:
  assumes "start_locust w run_id u d s = (r, s')"
  obtains (launch_raised) e where "raises w LogOpen = Some e \<or> raises w ProcessSpawn = Some e"
      and "r = (if is_exception e then Inr False else Inl e)"
      and "appends (\<lambda>ev. (\<exists>p. ev = OpenLog p) \<or> ev = Popen u d) s s'"
      and "locust_process s' = locust_process s"
    | (exited) "raises w LogOpen = None" and "raises w ProcessSpawn = None"
      and "exited_by w 3" and "r = Inr False"
      and "s' = s\<lparr>locust_log_file := True,
                  locust_process := Some \<lparr>alive = False, stubborn = ignores_terminate w\<rparr>,
                  events := events s
                    @ [OpenLog (os_path_join output_dir (run_id @ ''.locust.log'')), Popen u d,
                       Sleep 3]\<rparr>"
    | (running) "raises w LogOpen = None" and "raises w ProcessSpawn = None"
      and "\<not> exited_by w 3" and "r = Inr True"
      and "s' = s\<lparr>locust_log_file := True,
                  locust_process := Some \<lparr>alive = True, stubborn = ignores_terminate w\<rparr>,
                  events := events s
                    @ [OpenLog (os_path_join output_dir (run_id @ ''.locust.log'')), Popen u d,
                       Sleep 3]\<rparr>"
proof (cases "launch w run_id u d s")
  case (Pair r0 s0)
  from Pair show thesis
  proof (cases rule: launch_cases)
    case (open_raised e)
    with Pair assms have "r = (if is_exception e then Inr False else Inl e)" "s' = s0"
      by (auto simp: start_locust_def)
    with open_raised launch_raised [of e] show thesis
      by (simp add: appends_def emit_def)
  next
    case (spawn_raised e)
    with Pair assms have "r = (if is_exception e then Inr False else Inl e)" "s' = s0"
      by (auto simp: start_locust_def)
    with spawn_raised launch_raised [of e] show thesis
      by (simp add: appends_def emit_def)
  next
    case exited
    with Pair assms have "r = Inr False" "s' = s0" by (auto simp: start_locust_def)
    with exited show thesis using that(2) by simp
  next
    case running
    with Pair assms have "r = Inr True" "s' = s0" by (auto simp: start_locust_def)
    with running show thesis using that(3) by simp
  qed
qed

lemma start_locust_appends:
  assumes "start_locust w run_id u d s = (r, s')"
    and "\<And>p. P (OpenLog p)" and "P (Popen u d)" and "P (Sleep 3)"
  shows "appends P s s'"
  using assms(1)
proof (cases rule: start_locust_cases)
  case (launch_raised e)
  from launch_raised(3) show ?thesis
    by (rule appends_mono) (use assms(2,3) in auto)
next
  case exited
  with assms(2-4) show ?thesis by (simp add: appends_def)
next
  case running
  with assms(2-4) show ?thesis by (simp add: appends_def)
qed

lemma start_locust_frame:
  assumes "start_locust w run_id u d s = (r, s')"
  shows "appends lifecycle s s'"
  using assms by (rule start_locust_appends) (simp_all add: lifecycle_def)

lemma start_locust_True:
  assumes "start_locust w run_id u d s = (Inr True, s')"
  shows "locust_process s' = Some \<lparr>alive = True, stubborn = ignores_terminate w\<rparr>"
    and "raises w LogOpen = None" and "raises w ProcessSpawn = None" and "\<not> exited_by w 3"
    and "events s' = events s
           @ [OpenLog (os_path_join output_dir (run_id @ ''.locust.log'')), Popen u d, Sleep 3]"
  using assms by (cases rule: start_locust_cases; simp split: if_splits)+

lemma start_locust_launched:
  assumes "raises w LogOpen = None" "raises w ProcessSpawn = None" "\<not> exited_by w 3"
  shows "fst (start_locust w run_id u d s) = Inr True"
  using assms by (simp add: start_locust_def launch_def call_def Let_def)


lemma exited_by_mono: "exited_by w t \<Longrightarrow> t \<le> t' \<Longrightarrow> exited_by w t'"
  by (auto simp: exited_by_def split: option.splits)

lemma keep_alive_loop_frame:
  "keep_alive_loop w d e s = (r, s') \<Longrightarrow>
     appends (\<lambda>ev. ev = KeepAlive) s s' \<and> locust_process s' = locust_process s
     \<and> locust_log_file s' = locust_log_file s
     \<and> (\<forall>n. r = Inr n \<longrightarrow> int n \<le> max (int e + 1) (d + 60)
                             \<and> (events s' = events s \<or> raises w LoopRun = None))
     \<and> (\<forall>x. r = Inl x \<longrightarrow> raises w LoopRun = Some x \<and> \<not> exited_by w (3 + e)
                             \<and> events s' = events s @ [KeepAlive])"
proof (induction w d e s rule: keep_alive_loop.induct)
  case (1 w d e s)
  show ?case
  proof (cases "exited_by w (3 + e)")
    case True
    with "1.prems" have "s' = s" "r = Inr e" by (auto simp: keep_alive_loop.simps)
    then show ?thesis by (simp add: appends_refl)
  next
    case False
    note alive = this
    have k: "appends (\<lambda>ev. ev = KeepAlive) s (emit KeepAlive s)"
      by (rule appends_emit) simp
    show ?thesis
    proof (cases "raises w LoopRun")
      case (Some x)
      with alive "1.prems" have "s' = emit KeepAlive s" "r = Inl x"
        by (simp_all add: keep_alive_loop.simps call_def)
      with k Some alive show ?thesis by (simp add: emit_def)
    next
      case None
      note runs = this
      have c: "call w LoopRun KeepAlive s = (Inr (), emit KeepAlive s)"
        using runs by (simp add: call_def)
      show ?thesis
      proof (cases "d + 60 \<le> int (e + 1)")
        case True
        with alive c "1.prems" have "s' = emit KeepAlive s" "r = Inr (e + 1)"
          by (simp_all add: keep_alive_loop.simps)
        with k runs show ?thesis by (simp add: emit_def)
      next
        case False
        with alive c "1.prems"
        have "keep_alive_loop w d (e + 1) (emit KeepAlive s) = (r, s')"
          by (simp add: keep_alive_loop.simps)
        from "1.IH" [OF alive c [symmetric] refl False this]
        have "appends (\<lambda>ev. ev = KeepAlive) (emit KeepAlive s) s'"
          and "locust_process s' = locust_process (emit KeepAlive s)"
          and "locust_log_file s' = locust_log_file (emit KeepAlive s)"
          and "\<forall>n. r = Inr n \<longrightarrow> int n \<le> max (int (e + 1) + 1) (d + 60)"
          and "\<forall>x. r = Inl x \<longrightarrow> False"
          using runs by simp_all
        with k False runs show ?thesis
          by (auto simp: emit_def intro: appends_trans)
      qed
    qed
  qed
qed

lemma wait_frame:
  assumes "wait_for_locust_completion w now timeout s = (ok, s')"
  shows "appends (\<lambda>ev. ev = CloseLog) s s'"
    and "ok \<Longrightarrow> exit_code w = 0 \<and> exited_by w (now + timeout)"
    and "locust_process s \<noteq> None \<Longrightarrow> \<not> exited_by w (now + timeout) \<Longrightarrow>
           \<not> ok \<and> locust_process s' = locust_process s"
    and "(locust_process s' = None) = (locust_process s = None)"
proof -
  show "appends (\<lambda>ev. ev = CloseLog) s s'"
    using assms
    by (auto simp: wait_for_locust_completion_def Let_def appends_def emit_def
          split: option.splits if_splits)
  show "ok \<Longrightarrow> exit_code w = 0 \<and> exited_by w (now + timeout)"
    using assms
    by (auto simp: wait_for_locust_completion_def Let_def split: option.splits if_splits)
  show "locust_process s \<noteq> None \<Longrightarrow> \<not> exited_by w (now + timeout) \<Longrightarrow>
           \<not> ok \<and> locust_process s' = locust_process s"
    using assms
    by (auto simp: wait_for_locust_completion_def Let_def emit_def split: option.splits if_splits)
  show "(locust_process s' = None) = (locust_process s = None)"
    using assms
    by (auto simp: wait_for_locust_completion_def Let_def emit_def split: option.splits if_splits)
qed

lemma stop_locust_frame:
  "appends (\<lambda>ev. ev = Terminate \<or> ev = Kill) s (stop_locust s)"
  "locust_process (stop_locust s) = None"
  "locust_process s = Some p \<Longrightarrow>
     events (stop_locust s) = events s @ Terminate # (if alive p \<and> stubborn p then [Kill] else [])"
  "locust_process s = None \<Longrightarrow> stop_locust s = s"
  by (auto simp: stop_locust_def Let_def appends_def emit_def split: option.splits)

lemma persist_results_frame:
  assumes "persist_results w run_id p s = (r, s')"
  shows "appends quiet s s'" and "locust_process s' = locust_process s"
    and "r = Inr u \<Longrightarrow> appends (returned w) s s'"
proof -
  have q: "quiet StopCollecting" "quiet (Sleep 2)" "quiet (ExtractMetrics p)"
    "\<And>ms. quiet (InsertLocustMetrics run_id ms)" "\<And>d. quiet (InsertCollectorMetrics run_id d)"
    "quiet (CreateRunSummary run_id)" "quiet GetAggregatedMetrics"
    by (simp_all add: quiet_def)
  show "appends quiet s s'"
    using assms
    by (auto simp: persist_results_def call_def Let_def emit_def appends_def q
          split: sum.splits option.splits if_splits prod.splits)
  show "locust_process s' = locust_process s"
    using assms
    by (auto simp: persist_results_def call_def Let_def emit_def
          split: sum.splits option.splits if_splits prod.splits)
  show "r = Inr u \<Longrightarrow> appends (returned w) s s'"
    using assms
    by (auto simp: persist_results_def call_def Let_def emit_def appends_def returned_def
          split: sum.splits option.splits if_splits prod.splits)
qed

section \<open>The exceptions of aggregate_metrics and extract_metrics\<close>

lemma py_get_error: "py_get v k dflt = Inl e \<Longrightarrow> e = AttributeError"
  by (cases v) simp_all

lemma gt_zero_error: "gt_zero v = Inl e \<Longrightarrow> e = TypeError"
  by (auto simp: gt_zero_def split: option.splits num.splits)

lemma parse_measurements_error:
  "parse_measurements m acc = Inl e \<Longrightarrow> e = AttributeError \<or> e = TypeError"
  by (auto simp: parse_measurements_def Let_def split: if_splits sum.splits
        dest: py_get_error gt_zero_error)

lemma collect_samples_error:
  "collect_samples ms acc = Inl e \<Longrightarrow> e = AttributeError \<or> e = TypeError"
  by (induction ms arbitrary: acc) (auto split: sum.splits dest: parse_measurements_error)

lemma py_sum_error: "py_sum ar vs = Inl e \<Longrightarrow> e = OverflowError \<or> e = TypeError"
  by (auto simp: py_sum_def Let_def split: option.splits if_splits)

lemma py_mean_error: "py_mean ar vs = Inl e \<Longrightarrow> e = OverflowError \<or> e = TypeError"
  by (auto simp: py_mean_def split: sum.splits option.splits dest: py_sum_error)

lemma int_of_float_error: "int_of_float x = Inl e \<Longrightarrow> e = OverflowError \<or> e = ValueError"
  by (cases x) auto

lemma add_connections_error:
  "add_connections ar acc a = Inl e \<Longrightarrow> e = OverflowError \<or> e = TypeError \<or> e = ValueError"
  by (auto simp: add_connections_def split: list.splits sum.splits
        dest: py_mean_error int_of_float_error)

lemma add_cache_error:
  "add_cache ar acc a = Inl e \<Longrightarrow> e = OverflowError \<or> e = TypeError \<or> e = ValueError"
  by (auto simp: add_cache_def split: if_splits sum.splits dest: py_mean_error)

lemma add_scans_error:
  "add_scans ar acc a = Inl e \<Longrightarrow> e = OverflowError \<or> e = TypeError \<or> e = ValueError"
  by (auto simp: add_scans_def split: if_splits sum.splits
        dest: py_mean_error int_of_float_error)

lemma add_health_error:
  "add_health ar acc a = Inl e \<Longrightarrow> e = OverflowError \<or> e = TypeError \<or> e = ValueError"
  by (auto simp: add_health_def split: if_splits sum.splits dest: py_mean_error)

lemma aggregate_metrics_error:
  assumes "aggregate_metrics ar buf = Inl e"
  shows "is_exception e"
proof -
  from assms have "e = AttributeError \<or> e = TypeError \<or> e = OverflowError \<or> e = ValueError"
    by (auto simp: aggregate_metrics_def split: if_splits sum.splits
          dest: collect_samples_error add_connections_error add_cache_error add_scans_error
            add_health_error)
  then show ?thesis by auto
qed

lemma stripped_field_error: "stripped_field row key dflt = Inl e \<Longrightarrow> e = AttributeError"
  by (auto simp: stripped_field_def split: option.splits)

lemma float_cell_error: "float_cell v = Inl e \<Longrightarrow> e = TypeError \<or> e = ValueError"
  by (auto simp: float_cell_def split: option.splits)

lemma int_field_error: "int_field row key = Inl e \<Longrightarrow> e = TypeError \<or> e = ValueError"
  by (auto simp: int_field_def int_cell_def split: option.splits)

lemma float_field_error: "float_field row key = Inl e \<Longrightarrow> e = TypeError \<or> e = ValueError"
  by (auto simp: float_field_def split: option.splits dest: float_cell_error)

lemma build_metric_error:
  assumes "build_metric row ep meth = Inl e"
  shows "e = TypeError \<or> e = ValueError"
proof -
  have p50: "(case map_of row ''50%'' of
              None \<Rightarrow> float_field row ''Median Response Time''
            | Some v \<Rightarrow> float_cell v) = Inl x \<Longrightarrow> x = TypeError \<or> x = ValueError" for x
    by (auto split: option.splits dest: float_field_error float_cell_error)
  from assms show ?thesis
    unfolding build_metric_def
    by (simp split: sum.splits)
       (use int_field_error float_field_error p50 in blast)+
qed

lemma extract_rows_error:
  "extract_rows rows metrics = Inl e \<Longrightarrow> e = AttributeError \<or> e = TypeError"
proof (induction rows metrics rule: extract_rows.induct)
  case (1 metrics)
  then show ?case by simp
next
  case (2 row rows metrics)
  show ?case
  proof (cases "map_of row ''Name'' = Some (Some ''Aggregated'')")
    case True
    with "2.prems" "2.IH"(1) show ?thesis by simp
  next
    case False
    show ?thesis
    proof (cases "stripped_field row ''Name'' ''''")
      case (Inl x)
      with False "2.prems" stripped_field_error [OF Inl] show ?thesis by simp
    next
      case name: (Inr name)
      show ?thesis
      proof (cases "stripped_field row ''Method'' ''GET''")
        case (Inl x)
        with False name "2.prems" stripped_field_error [OF Inl] show ?thesis by simp
      next
        case meth: (Inr meth)
        obtain meth' ep where split: "(if CHR '' '' \<in> set name
                   then (takeWhile (\<lambda>c. c \<noteq> CHR '' '') name,
                         tl (dropWhile (\<lambda>c. c \<noteq> CHR '' '') name))
                   else (meth, name)) = (meth', ep)"
          by (cases "(if CHR '' '' \<in> set name
                   then (takeWhile (\<lambda>c. c \<noteq> CHR '' '') name,
                         tl (dropWhile (\<lambda>c. c \<noteq> CHR '' '') name))
                   else (meth, name))")
        show ?thesis
        proof (cases "build_metric row ep meth'")
          case (Inl x)
          from build_metric_error [OF Inl] have "x = TypeError \<or> x = ValueError" .
          then show ?thesis
          proof
            assume "x = TypeError"
            with False name meth split Inl "2.prems" show ?thesis by simp
          next
            assume x: "x = ValueError"
            with False name meth split Inl "2.prems"
            have "extract_rows rows metrics = Inl e" by simp
            from "2.IH"(2) [OF False name meth refl split [symmetric] Inl x this]
            show ?thesis .
          qed
        next
          case (Inr metric)
          with False name meth split "2.prems"
          have "extract_rows rows (metrics @ [metric]) = Inl e" by simp
          from "2.IH"(3) [OF False name meth refl split [symmetric] Inr this]
          show ?thesis .
        qed
      qed
    qed
  qed
qed

lemma extract_metrics_error:
  assumes "extract_metrics fs p = Inl e"
  shows "is_exception e"
proof -
  from assms have "e = AttributeError \<or> e = TypeError"
    by (auto simp: extract_metrics_def Let_def split: option.splits dest: extract_rows_error)
  then show ?thesis by auto
qed

section \<open>The paths through one run\<close>

lemma persist_results_Inl:
  assumes "persist_results w run_id p s = (Inl e, s')"
  shows "is_exception e \<or> (\<exists>c. raises w c = Some e)"
  using assms
  by (auto simp: persist_results_def call_def Let_def
        split: sum.splits option.splits if_splits prod.splits
        dest: extract_metrics_error aggregate_metrics_error)

lemma record_results_cases:
  assumes "record_results w run_id p c s = (r, s')"
  obtains (raised) e where "r = Inl e" and "appends quiet s s'"
      and "locust_process s' = locust_process s"
      and "is_exception e \<or> (\<exists>c. raises w c = Some e)"
    | (finished) s5 where "r = Inr True" and "appends quiet s s5"
      and "appends (returned w) s s5"
      and "s' = (if 0 < c then emit (Cooldown c) s5 else s5)"
      and "locust_process s5 = locust_process s"
proof (cases "persist_results w run_id p s")
  case (Pair r5 s5)
  note f = persist_results_frame [OF Pair]
  show thesis
  proof (cases r5)
    case (Inl e)
    with Pair assms have "r = Inl e" "s' = s5" by (simp_all add: record_results_def)
    with f(1,2) persist_results_Inl [OF Pair [unfolded Inl]] raised [of e] show thesis by simp
  next
    case (Inr u)
    with Pair assms have "r = Inr True" "s' = (if 0 < c then emit (Cooldown c) s5 else s5)"
      by (auto simp: record_results_def)
    with f(1,2) f(3) [OF Inr] finished [of s5] show thesis by simp
  qed
qed

lemma with_collector_cases:
  assumes "with_collector w run_id p u d c s = (r, s')"
  obtains (subscribe_raised) e where "raises w NatsSubscribe = Some e" and "r = Inl e"
      and "s' = emit StartCollecting s"
    | (launch_escaped) e where "raises w NatsSubscribe = None"
      and "start_locust w run_id u d (emit (Sleep 2) (emit StartCollecting s)) = (Inl e, s')"
      and "r = Inl e"
    | (launch_failed) "raises w NatsSubscribe = None"
      and "start_locust w run_id u d (emit (Sleep 2) (emit StartCollecting s)) = (Inr False, s')"
      and "r = Inr False"
    | (loop_raised) s2 e where "raises w NatsSubscribe = None"
      and "start_locust w run_id u d (emit (Sleep 2) (emit StartCollecting s)) = (Inr True, s2)"
      and "keep_alive_loop w d 0 s2 = (Inl e, s')" and "r = Inl e"
    | (wait_failed) s2 s3 n s4 where "raises w NatsSubscribe = None"
      and "start_locust w run_id u d (emit (Sleep 2) (emit StartCollecting s)) = (Inr True, s2)"
      and "keep_alive_loop w d 0 s2 = (Inr n, s3)"
      and "wait_for_locust_completion w (3 + n) 30 s3 = (False, s4)"
      and "r = Inr False" and "s' = stop_locust s4"
    | (clean_exit) s2 s3 n s4 where "raises w NatsSubscribe = None"
      and "start_locust w run_id u d (emit (Sleep 2) (emit StartCollecting s)) = (Inr True, s2)"
      and "keep_alive_loop w d 0 s2 = (Inr n, s3)"
      and "wait_for_locust_completion w (3 + n) 30 s3 = (True, s4)"
      and "record_results w run_id p c s4 = (r, s')"
  using assms
  by (auto simp: with_collector_def call_def
        split: sum.splits if_splits prod.splits bool.splits option.splits)

lemma loop_bound_wait:
  assumes "\<not> exited_by w (deadline d)" and "int n \<le> max (int 0 + 1) (d + 60)"
  shows "\<not> exited_by w (3 + n + 30)"
proof
  assume "exited_by w (3 + n + 30)"
  moreover from assms(2) have "3 + n + 30 \<le> deadline d"
    by (simp add: deadline_def loop_bound_def)
  ultimately have "exited_by w (deadline d)" by (rule exited_by_mono)
  with assms(1) show False by simp
qed


lemma prelude_appends:
  assumes "P StartCollecting" and "P (Sleep 2)"
  shows "appends P s (emit (Sleep 2) (emit StartCollecting s))"
  using assms by (simp add: appends_def emit_def)

text \<open>The states of a run up to the end of the bounded wait.\<close>

lemma launch_frame:
  assumes "start_locust w run_id u d (emit (Sleep 2) (emit StartCollecting s)) = (ok, s2)"
  shows "appends lifecycle s s2"
proof -
  have "appends lifecycle s (emit (Sleep 2) (emit StartCollecting s))"
    by (rule prelude_appends) (simp_all add: lifecycle_def)
  then show ?thesis using start_locust_frame [OF assms] by (rule appends_trans)
qed

lemma keep_alive_lifecycle:
  "keep_alive_loop w d e s = (r, s') \<Longrightarrow> appends lifecycle s s'"
  using keep_alive_loop_frame [of w d e s r s']
  by (auto intro: appends_mono simp: lifecycle_def)

lemma wait_lifecycle:
  "wait_for_locust_completion w now timeout s = (ok, s') \<Longrightarrow> appends lifecycle s s'"
  using wait_frame(1) [of w now timeout s ok s']
  by (auto intro: appends_mono simp: lifecycle_def)

lemma stop_lifecycle: "appends lifecycle s (stop_locust s)"
  using stop_locust_frame(1) [of s]
  by (rule appends_mono) (auto simp: lifecycle_def)

lemma loop_after_launch:
  assumes "start_locust w run_id u d (emit (Sleep 2) (emit StartCollecting s)) = (Inr True, s2)"
    and "keep_alive_loop w d 0 s2 = (r, s3)"
  shows "appends lifecycle s s3"
    and "locust_process s3 = Some \<lparr>alive = True, stubborn = ignores_terminate w\<rparr>"
    and "\<forall>n. r = Inr n \<longrightarrow> int n \<le> max (int 0 + 1) (d + 60)"
proof -
  note k = keep_alive_loop_frame [OF assms(2)]
  from launch_frame [OF assms(1)] keep_alive_lifecycle [OF assms(2)]
  show "appends lifecycle s s3" by (rule appends_trans)
  from start_locust_True(1) [OF assms(1)] k
  show "locust_process s3 = Some \<lparr>alive = True, stubborn = ignores_terminate w\<rparr>" by simp
  from k show "\<forall>n. r = Inr n \<longrightarrow> int n \<le> max (int 0 + 1) (d + 60)" by blast
qed

lemma lifecycle_quiet: "lifecycle ev \<Longrightarrow> quiet ev"
  by (simp add: lifecycle_def quiet_def)

lemma appends_lifecycle_quiet: "appends lifecycle s s' \<Longrightarrow> appends quiet s s'"
  by (erule appends_mono) (rule lifecycle_quiet)

lemma with_collector_no_create:
  assumes "with_collector w run_id p u d c s = (r, s')"
  shows "appends (\<lambda>ev. \<not> is_create ev) s s'"
proof -
  have l: "\<And>t. appends lifecycle s t \<Longrightarrow> appends (\<lambda>ev. \<not> is_create ev) s t"
    by (erule appends_mono) (simp add: lifecycle_def)
  have q: "\<And>a b. appends quiet a b \<Longrightarrow> appends (\<lambda>ev. \<not> is_create ev) a b"
    by (erule appends_mono) (simp add: quiet_def)
  have cd: "\<And>t x. appends (\<lambda>ev. \<not> is_create ev) t (emit (Cooldown x) t)"
    by (rule appends_emit) simp
  from assms show ?thesis
  proof (cases rule: with_collector_cases)
    case (subscribe_raised e)
    then show ?thesis by (simp add: appends_emit)
  next
    case (launch_escaped e)
    from launch_frame [OF launch_escaped(2)] show ?thesis by (rule l)
  next
    case launch_failed
    from launch_frame [OF launch_failed(2)] show ?thesis by (rule l)
  next
    case (loop_raised s2 e)
    from loop_after_launch(1) [OF loop_raised(2,3)] show ?thesis by (rule l)
  next
    case (wait_failed s2 s3 n s4)
    from loop_after_launch(1) [OF wait_failed(2,3)] wait_lifecycle [OF wait_failed(4)]
      stop_lifecycle [of s4]
    have "appends lifecycle s s'" unfolding wait_failed(6) by (blast intro: appends_trans)
    then show ?thesis by (rule l)
  next
    case (clean_exit s2 s3 n s4)
    from loop_after_launch(1) [OF clean_exit(2,3)] wait_lifecycle [OF clean_exit(4)]
    have a: "appends (\<lambda>ev. \<not> is_create ev) s s4" by (blast intro: appends_trans l)
    from clean_exit(5) have "appends (\<lambda>ev. \<not> is_create ev) s4 s'"
    proof (cases rule: record_results_cases)
      case (raised e)
      then show ?thesis by (blast intro: q)
    next
      case (finished s5)
      from q [OF finished(2)] cd [of s5 c] show ?thesis
        unfolding finished(4) by (auto intro: appends_trans)
    qed
    with a show ?thesis by (rule appends_trans)
  qed
qed

lemma with_collector_unclean:
  assumes "with_collector w run_id p u d c s = (r, s')"
    and "exit_code w \<noteq> 0 \<or> \<not> exited_by w (deadline d)"
  shows "r \<noteq> Inr True \<and> appends lifecycle s s'"
  using assms(1)
proof (cases rule: with_collector_cases)
  case (subscribe_raised e)
  then show ?thesis by (simp add: appends_emit lifecycle_def)
next
  case (launch_escaped e)
  with launch_frame [OF launch_escaped(2)] show ?thesis by simp
next
  case launch_failed
  with launch_frame [OF launch_failed(2)] show ?thesis by simp
next
  case (loop_raised s2 e)
  with loop_after_launch(1) [OF loop_raised(2,3)] show ?thesis by simp
next
  case (wait_failed s2 s3 n s4)
  from loop_after_launch(1) [OF wait_failed(2,3)] wait_lifecycle [OF wait_failed(4)]
    stop_lifecycle [of s4]
  have "appends lifecycle s s'" unfolding wait_failed(6) by (blast intro: appends_trans)
  with wait_failed(5) show ?thesis by simp
next
  case (clean_exit s2 s3 n s4)
  from wait_frame(2) [OF clean_exit(4)]
  have z: "exit_code w = 0" and x: "exited_by w (3 + n + 30)" by simp_all
  from loop_after_launch(3) [OF clean_exit(2,3)]
  have "int n \<le> max (int 0 + 1) (d + 60)" by simp
  with x loop_bound_wait [of w d n] have "exited_by w (deadline d)" by blast
  with z assms(2) show ?thesis by simp
qed

lemma with_collector_cooldown:
  assumes "with_collector w run_id p u d c s = (r, s')"
  shows "(r = Inr True \<and> (\<exists>s5. appends quiet s s5
                              \<and> s' = (if 0 < c then emit (Cooldown c) s5 else s5)))
       \<or> (r \<noteq> Inr True \<and> appends quiet s s')"
  using assms(1)
proof (cases rule: with_collector_cases)
  case (subscribe_raised e)
  then show ?thesis by (simp add: appends_emit quiet_def)
next
  case (launch_escaped e)
  with launch_frame [OF launch_escaped(2)] show ?thesis
    by (simp add: appends_lifecycle_quiet)
next
  case launch_failed
  with launch_frame [OF launch_failed(2)] show ?thesis
    by (simp add: appends_lifecycle_quiet)
next
  case (loop_raised s2 e)
  with loop_after_launch(1) [OF loop_raised(2,3)] show ?thesis
    by (simp add: appends_lifecycle_quiet)
next
  case (wait_failed s2 s3 n s4)
  from loop_after_launch(1) [OF wait_failed(2,3)] wait_lifecycle [OF wait_failed(4)]
    stop_lifecycle [of s4]
  have "appends lifecycle s s'" unfolding wait_failed(6) by (blast intro: appends_trans)
  with wait_failed(5) show ?thesis by (simp add: appends_lifecycle_quiet)
next
  case (clean_exit s2 s3 n s4)
  from loop_after_launch(1) [OF clean_exit(2,3)] wait_lifecycle [OF clean_exit(4)]
  have a: "appends quiet s s4" by (blast intro: appends_trans appends_lifecycle_quiet)
  from clean_exit(5) show ?thesis
  proof (cases rule: record_results_cases)
    case (raised e)
    with a show ?thesis by (auto intro: appends_trans)
  next
    case (finished s5)
    from a finished(2) have "appends quiet s s5" by (rule appends_trans)
    with finished(1,4) show ?thesis by blast
  qed
qed



lemma run_body_cases:
  assumes "run_body w u d c s = (r, s')"
  obtains (create_raised) e where "raises w DbCreateRun = Some e" and "r = Inl e"
      and "s' = emit (CreateBenchmarkRun (generate_run_id w s u) u) s"
    | (connect_raised) e where "raises w DbCreateRun = None" and "raises w NatsConnect = Some e"
      and "r = Inl e"
      and "s' = emit Connect (emit (CreateBenchmarkRun (generate_run_id w s u) u) s)"
    | (exit_raised) r3 s3 e where "raises w DbCreateRun = None" and "raises w NatsConnect = None"
      and "with_collector w (generate_run_id w s u) (os_path_join output_dir (generate_run_id w s u))
             u d c (emit Connect (emit (CreateBenchmarkRun (generate_run_id w s u) u) s)) = (r3, s3)"
      and "raises w NatsDisconnect = Some e" and "r = Inl e" and "s' = emit Disconnect s3"
    | (left) s3 where "raises w DbCreateRun = None" and "raises w NatsConnect = None"
      and "with_collector w (generate_run_id w s u) (os_path_join output_dir (generate_run_id w s u))
             u d c (emit Connect (emit (CreateBenchmarkRun (generate_run_id w s u) u) s)) = (r, s3)"
      and "raises w NatsDisconnect = None" and "s' = emit Disconnect s3"
  using assms
  by (auto simp: run_body_def call_def Let_def split: sum.splits if_splits prod.splits option.splits)

section \<open>One run\<close>

lemma run_single_test_cases:
  assumes "run_single_test w u d c s = (r, s')"
  obtains (caught) e s1 where "run_body w u d c s = (Inl e, s1)" and "is_exception e"
      and "r = Inr False" and "s' = stop_locust s1"
    | (escaped) e where "run_body w u d c s = (Inl e, s')" and "\<not> is_exception e"
      and "r = Inl e"
    | (completed) b where "run_body w u d c s = (Inr b, s')" and "r = Inr b"
  using assms
  by (auto simp: run_single_test_def split: sum.splits if_splits prod.splits)

lemma appends_after_opening:
  assumes "appends P (emit Connect (emit (CreateBenchmarkRun rid u) s)) s3" and "P Connect"
    and "P Disconnect"
  shows "\<exists>rest. events (emit Disconnect s3) = events s @ CreateBenchmarkRun rid u # rest
           \<and> list_all P rest"
  using assms by (auto simp: appends_def emit_def)

lemma stop_locust_rest:
  assumes "events s1 = events s @ ev # rest" and "list_all P rest" and "P Terminate" and "P Kill"
  shows "\<exists>rest'. events (stop_locust s1) = events s @ ev # rest' \<and> list_all P rest'"
  using assms by (auto simp: stop_locust_def Let_def emit_def split: option.splits)

text \<open>The events of one run: the run record first, nothing of the kind P excludes after it.\<close>

lemma run_body_rest:
  assumes "run_body w u d c s = (r, s')"
    and wc: "\<forall>r3 s3. with_collector w (generate_run_id w s u)
                 (os_path_join output_dir (generate_run_id w s u)) u d c
                 (emit Connect (emit (CreateBenchmarkRun (generate_run_id w s u) u) s)) = (r3, s3)
             \<longrightarrow> appends P (emit Connect (emit (CreateBenchmarkRun (generate_run_id w s u) u) s)) s3"
    and "P Connect" and "P Disconnect"
  shows "\<exists>rest. events s' = events s @ CreateBenchmarkRun (generate_run_id w s u) u # rest
           \<and> list_all P rest"
  using assms(1)
proof (cases rule: run_body_cases)
  case (create_raised e)
  then show ?thesis by (simp add: emit_def)
next
  case (connect_raised e)
  with assms(3) show ?thesis by (simp add: emit_def)
next
  case (exit_raised r3 s3 e)
  from appends_after_opening [OF wc [rule_format, OF exit_raised(3)] assms(3,4)] exit_raised(6)
  show ?thesis by simp
next
  case (left s3)
  from appends_after_opening [OF wc [rule_format, OF left(3)] assms(3,4)] left(5)
  show ?thesis by simp
qed

lemma run_single_test_rest:
  assumes "run_single_test w u d c s = (r, s')"
    and wc: "\<forall>r3 s3. with_collector w (generate_run_id w s u)
                 (os_path_join output_dir (generate_run_id w s u)) u d c
                 (emit Connect (emit (CreateBenchmarkRun (generate_run_id w s u) u) s)) = (r3, s3)
             \<longrightarrow> appends P (emit Connect (emit (CreateBenchmarkRun (generate_run_id w s u) u) s)) s3"
    and "P Connect" and "P Disconnect" and "P Terminate" and "P Kill"
  shows "\<exists>rest. events s' = events s @ CreateBenchmarkRun (generate_run_id w s u) u # rest
           \<and> list_all P rest"
  using assms(1)
proof (cases rule: run_single_test_cases)
  case (caught e s1)
  from run_body_rest [OF caught(1) wc assms(3,4)] obtain rest where
    e: "events s1 = events s @ CreateBenchmarkRun (generate_run_id w s u) u # rest"
    and p: "list_all P rest" by blast
  from stop_locust_rest [OF e p assms(5,6)] caught(4) show ?thesis by simp
next
  case (escaped e)
  from run_body_rest [OF escaped(1) wc assms(3,4)] show ?thesis .
next
  case (completed b)
  from run_body_rest [OF completed(1) wc assms(3,4)] show ?thesis .
qed

lemma run_body_failed:
  assumes "run_body w u d c s = (r, s')"
    and "\<forall>r3 s3. with_collector w (generate_run_id w s u)
                 (os_path_join output_dir (generate_run_id w s u)) u d c
                 (emit Connect (emit (CreateBenchmarkRun (generate_run_id w s u) u) s)) = (r3, s3)
             \<longrightarrow> r3 \<noteq> Inr True"
  shows "r \<noteq> Inr True"
  using assms(1) assms(2) by (cases rule: run_body_cases) auto

lemma run_single_test_failed:
  assumes "run_single_test w u d c s = (r, s')"
    and "\<forall>r3 s3. with_collector w (generate_run_id w s u)
                 (os_path_join output_dir (generate_run_id w s u)) u d c
                 (emit Connect (emit (CreateBenchmarkRun (generate_run_id w s u) u) s)) = (r3, s3)
             \<longrightarrow> r3 \<noteq> Inr True"
  shows "r \<noteq> Inr True"
  using assms(1)
proof (cases rule: run_single_test_cases)
  case (completed b)
  with run_body_failed [OF completed(1) assms(2)] show ?thesis by simp
qed simp_all

lemma lifecycle_not_results: "lifecycle ev \<Longrightarrow> \<not> is_results ev"
  by (simp add: lifecycle_def)

lemma appends_lifecycle_no_results:
  "appends lifecycle s s' \<Longrightarrow> appends (\<lambda>ev. \<not> is_results ev) s s'"
  by (erule appends_mono) (rule lifecycle_not_results)

lemma unclean_run:
  assumes "exit_code w \<noteq> 0 \<or> \<not> exited_by w (deadline d)"
    and "run_single_test w u d c s = (r, s')"
  shows "r \<noteq> Inr True
       \<and> (\<exists>new. events s' = events s @ new \<and> list_all (\<lambda>ev. \<not> is_results ev) new)"
proof -
  define s0 where "s0 = emit Connect (emit (CreateBenchmarkRun (generate_run_id w s u) u) s)"
  define rid where "rid = generate_run_id w s u"
  have un: "r3 \<noteq> Inr True \<and> appends lifecycle s0 s3"
    if "with_collector w rid (os_path_join output_dir rid) u d c s0 = (r3, s3)" for r3 s3
    using with_collector_unclean [OF that assms(1)] .
  have a: "\<forall>r3 s3. with_collector w rid (os_path_join output_dir rid) u d c s0 = (r3, s3)
             \<longrightarrow> appends (\<lambda>ev. \<not> is_results ev) s0 s3"
    using un appends_lifecycle_no_results by blast
  have f: "\<forall>r3 s3. with_collector w rid (os_path_join output_dir rid) u d c s0 = (r3, s3)
             \<longrightarrow> r3 \<noteq> Inr True"
    using un by blast
  from run_single_test_rest [OF assms(2) a [unfolded s0_def rid_def]] obtain rest where
    "events s' = events s @ CreateBenchmarkRun (generate_run_id w s u) u # rest"
    and "list_all (\<lambda>ev. \<not> is_results ev) rest" by auto
  then have "\<exists>new. events s' = events s @ new \<and> list_all (\<lambda>ev. \<not> is_results ev) new"
    by (intro exI [of _ "CreateBenchmarkRun (generate_run_id w s u) u # rest"]) simp
  with run_single_test_failed [OF assms(2) f [unfolded s0_def rid_def]] show ?thesis by simp
qed




text \<open>Where the cooldown is slept.\<close>

lemma quiet_no_cooldown: "list_all quiet xs \<Longrightarrow> filter is_cooldown xs = []"
  by (induction xs) (auto simp: quiet_def)

lemma run_body_cooldown:
  assumes "raises w NatsDisconnect = None" and b: "run_body w u d c s = (rb, s1)"
  shows "\<exists>new. events s1 = events s @ new
      \<and> (if rb = Inr True \<and> 0 < c
          then \<exists>pre. new = pre @ [Cooldown c, Disconnect] \<and> filter is_cooldown pre = []
          else filter is_cooldown new = [])"
  using b
proof (cases rule: run_body_cases)
  case (create_raised e)
  then show ?thesis by (simp add: emit_def)
next
  case (connect_raised e)
  then show ?thesis by (simp add: emit_def)
next
  case (exit_raised r3 s3 e)
  with assms(1) show ?thesis by simp
next
  case (left s3)
  define s0 where "s0 = emit Connect (emit (CreateBenchmarkRun (generate_run_id w s u) u) s)"
  have o: "events s0 = events s @ [CreateBenchmarkRun (generate_run_id w s u) u, Connect]"
    by (simp add: s0_def emit_def)
  from with_collector_cooldown [OF left(3) [folded s0_def]]
  show ?thesis
  proof (elim disjE conjE exE)
    fix s5
    assume t: "rb = Inr True" and q: "appends quiet s0 s5"
      and e: "s3 = (if 0 < c then emit (Cooldown c) s5 else s5)"
    from q obtain mid where m: "events s5 = events s0 @ mid" "list_all quiet mid"
      by (auto simp: appends_def)
    note f = quiet_no_cooldown [OF m(2)]
    show ?thesis
    proof (cases "0 < c")
      case True
      with e m(1) o left(5) have "events s1 = events s
          @ (CreateBenchmarkRun (generate_run_id w s u) u # Connect # mid)
          @ [Cooldown c, Disconnect]"
        by (simp add: emit_def)
      moreover have "filter is_cooldown
          (CreateBenchmarkRun (generate_run_id w s u) u # Connect # mid) = []"
        using f by simp
      ultimately show ?thesis using t True by auto
    next
      case False
      with e m(1) o left(5) have "events s1 = events s
          @ (CreateBenchmarkRun (generate_run_id w s u) u # Connect # mid @ [Disconnect])"
        by (simp add: emit_def)
      moreover have "filter is_cooldown
          (CreateBenchmarkRun (generate_run_id w s u) u # Connect # mid @ [Disconnect]) = []"
        using f by simp
      ultimately show ?thesis using False by auto
    qed
  next
    assume n: "rb \<noteq> Inr True" and q: "appends quiet s0 s3"
    from q obtain mid where m: "events s3 = events s0 @ mid" "list_all quiet mid"
      by (auto simp: appends_def)
    note f = quiet_no_cooldown [OF m(2)]
    from m(1) o left(5) have "events s1 = events s
          @ (CreateBenchmarkRun (generate_run_id w s u) u # Connect # mid @ [Disconnect])"
      by (simp add: emit_def)
    moreover have "filter is_cooldown
          (CreateBenchmarkRun (generate_run_id w s u) u # Connect # mid @ [Disconnect]) = []"
      using f by simp
    ultimately show ?thesis using n by auto
  qed
qed

lemma stop_locust_no_cooldown:
  assumes "events s1 = events s @ new" and "filter is_cooldown new = []"
  shows "\<exists>new'. events (stop_locust s1) = events s @ new' \<and> filter is_cooldown new' = []"
  using assms by (auto simp: stop_locust_def Let_def emit_def split: option.splits)

lemma run_cooldown_position:
  assumes "raises w NatsDisconnect = None" and run: "run_single_test w u d c s = (r, s')"
  shows "\<exists>new. events s' = events s @ new
      \<and> (if r = Inr True \<and> 0 < c
          then \<exists>pre. new = pre @ [Cooldown c, Disconnect] \<and> filter is_cooldown pre = []
          else filter is_cooldown new = [])"
  using run
proof (cases rule: run_single_test_cases)
  case (caught e s1)
  from run_body_cooldown [OF assms(1) caught(1)] obtain new where
    "events s1 = events s @ new" "filter is_cooldown new = []" by auto
  from stop_locust_no_cooldown [OF this] caught(3,4) show ?thesis by simp
next
  case (escaped e)
  from run_body_cooldown [OF assms(1) escaped(1)] escaped(3) show ?thesis by simp
next
  case (completed b)
  from run_body_cooldown [OF assms(1) completed(1)] completed(2) show ?thesis by simp
qed



lemma run_first_event:
  assumes "run_single_test w u d c s = (r, s')"
  shows "\<exists>rest. events s' = events s @ CreateBenchmarkRun (generate_run_id w s u) u # rest
      \<and> list_all (\<lambda>ev. \<not> is_create ev) rest"
proof -
  have nc: "\<not> is_create Connect" "\<not> is_create Disconnect" "\<not> is_create Terminate"
    "\<not> is_create Kill" by simp_all
  have wc: "\<forall>r3 s3. with_collector w (generate_run_id w s u)
                 (os_path_join output_dir (generate_run_id w s u)) u d c
                 (emit Connect (emit (CreateBenchmarkRun (generate_run_id w s u) u) s)) = (r3, s3)
             \<longrightarrow> appends (\<lambda>ev. \<not> is_create ev)
                   (emit Connect (emit (CreateBenchmarkRun (generate_run_id w s u) u) s)) s3"
    using with_collector_no_create by blast
  from run_single_test_rest [OF assms wc nc] show ?thesis .
qed


section \<open>The suite\<close>

lemma suite_loop_step:
  "suite_loop worlds idx (u # rest) d c k s =
     (case run_single_test (worlds idx) u d c s of
        (Inl e, s1) \<Rightarrow> (Inl e, s1)
      | (Inr ok, s1) \<Rightarrow> suite_loop worlds (idx + 1) rest d c (if ok then k + 1 else k) s1)"
  by (simp split: prod.splits sum.splits bool.splits)



section \<open>The rounds of the loop, and runs without an exception\<close>

lemma rounds_alive: "e < rounds w d \<Longrightarrow> \<not> exited_by w (3 + e)"
  by (auto simp: rounds_def exited_by_def split: option.splits)

lemma rounds_bound: "rounds w d \<le> loop_bound d"
  by (auto simp: rounds_def split: option.splits)

lemma rounds_positive: "\<not> exited_by w 3 \<Longrightarrow> 0 < rounds w d"
  by (auto simp: rounds_def exited_by_def loop_bound_def split: option.splits)

lemma rounds_exited:
  "rounds w d < loop_bound d \<Longrightarrow> exited_by w (3 + rounds w d)"
  by (auto simp: rounds_def exited_by_def split: option.splits)

lemma rounds_wait:
  "\<not> exited_by w 3 \<Longrightarrow> exited_by w (3 + rounds w d + 30) = exited_by w (deadline d)"
  by (auto simp: rounds_def exited_by_def deadline_def split: option.splits)

lemma rounds_wait_sum:
  "\<not> exited_by w 3 \<Longrightarrow> exited_by w (33 + rounds w d) = exited_by w (deadline d)"
  using rounds_wait [of w d] by (simp add: add.commute)


lemma keep_alive_loop_rounds_from:
  assumes nr: "raises w LoopRun = None" and "e < rounds w d"
  shows "keep_alive_loop w d e s =
           (Inr (rounds w d), s\<lparr>events := events s @ replicate (rounds w d - e) KeepAlive\<rparr>)"
  using assms(2)
proof (induction "rounds w d - e" arbitrary: e s)
  case 0
  then show ?case by simp
next
  case (Suc k)
  have alive: "\<not> exited_by w (3 + e)" using Suc.prems by (rule rounds_alive)
  have c: "call w LoopRun KeepAlive s = (Inr (), emit KeepAlive s)"
    using nr by (simp add: call_def)
  show ?case
  proof (cases "d + 60 \<le> int (e + 1)")
    case True
    with Suc.prems rounds_bound [of w d] have last: "rounds w d = e + 1"
      by (simp add: loop_bound_def)
    have "keep_alive_loop w d e s = (Inr (e + 1), emit KeepAlive s)"
      using alive c True by (subst keep_alive_loop.simps) simp
    then show ?thesis by (simp add: last emit_def)
  next
    case False
    have step: "keep_alive_loop w d e s = keep_alive_loop w d (e + 1) (emit KeepAlive s)"
      using alive c False by (subst keep_alive_loop.simps) simp
    show ?thesis
    proof (cases "e + 1 < rounds w d")
      case True
      from Suc.hyps(2) have k: "k = rounds w d - (e + 1)" by simp
      have "keep_alive_loop w d (e + 1) (emit KeepAlive s)
          = (Inr (rounds w d), (emit KeepAlive s)\<lparr>events := events (emit KeepAlive s)
                        @ replicate (rounds w d - (e + 1)) KeepAlive\<rparr>)"
        using k True by (rule Suc.hyps(1))
      moreover have "(emit KeepAlive s)\<lparr>events := events (emit KeepAlive s)
                        @ replicate (rounds w d - (e + 1)) KeepAlive\<rparr>
             = s\<lparr>events := events s @ replicate (rounds w d - e) KeepAlive\<rparr>"
      proof -
        from True have "rounds w d - e = Suc (rounds w d - (e + 1))" by simp
        then have "replicate (rounds w d - e) KeepAlive
            = KeepAlive # replicate (rounds w d - (e + 1)) KeepAlive"
          by (simp only: replicate_Suc)
        then show ?thesis by (simp add: emit_def)
      qed
      ultimately show ?thesis using step by simp
    next
      case False
      with Suc.prems have last: "rounds w d = e + 1" by simp
      from \<open>\<not> d + 60 \<le> int (e + 1)\<close> last have "rounds w d < loop_bound d"
        by (simp add: loop_bound_def)
      from rounds_exited [OF this] last have "exited_by w (3 + (e + 1))" by simp
      then have "keep_alive_loop w d (e + 1) (emit KeepAlive s) = (Inr (e + 1), emit KeepAlive s)"
        by (subst keep_alive_loop.simps) simp
      with step show ?thesis by (simp add: last emit_def)
    qed
  qed
qed

lemma keep_alive_loop_rounds:
  assumes "raises w LoopRun = None" and "\<not> exited_by w 3"
  shows "keep_alive_loop w d 0 s =
           (Inr (rounds w d), s\<lparr>events := events s @ replicate (rounds w d) KeepAlive\<rparr>)"
  using keep_alive_loop_rounds_from [OF assms(1) rounds_positive [OF assms(2)], of d s] by simp


lemma undisturbed_raises: "undisturbed w \<Longrightarrow> raises w c = None"
  by (simp add: undisturbed_def)

text \<open>A run in which no call raises and Locust is stopped after the bounded wait.\<close>

lemma stopped_run:
  assumes u: "undisturbed w" and g: "\<not> exited_by w 3"
    and x: "exit_code w \<noteq> 0 \<or> \<not> exited_by w (deadline d)"
  shows "run_single_test w u d c s =
     (Inr False, s\<lparr>locust_process := None, locust_log_file := False,
        events := events s @ launch_events (generate_run_id w s u) u d
          @ replicate (rounds w d) KeepAlive @ [CloseLog, Terminate]
          @ (if \<not> exited_by w (deadline d) \<and> ignores_terminate w then [Kill] else [])
          @ [Disconnect]\<rparr>)"
proof -
  note n = undisturbed_raises [OF u]
  have l: "keep_alive_loop w d 0 t =
      (Inr (rounds w d), t\<lparr>events := events t @ replicate (rounds w d) KeepAlive\<rparr>)" for t
    using n g by (rule keep_alive_loop_rounds)
  show ?thesis
  proof (cases "exited_by w (deadline d)")
    case True
    with x have "exit_code w \<noteq> 0" by simp
    with True show ?thesis
      by (simp add: run_single_test_def run_body_def with_collector_def call_def emit_def
          start_locust_def launch_def wait_for_locust_completion_def stop_locust_def Let_def
          n g l rounds_wait [OF g] rounds_wait_sum [OF g] launch_events_def)
  next
    case False
    then show ?thesis
      by (simp add: run_single_test_def run_body_def with_collector_def call_def emit_def
          start_locust_def launch_def wait_for_locust_completion_def stop_locust_def Let_def
          n g l rounds_wait [OF g] rounds_wait_sum [OF g] launch_events_def)
  qed
qed

text \<open>A run in which no call raises and Locust exits with code 0 before the wait gives up.\<close>

lemma clean_run:
  assumes u: "undisturbed w" and g: "\<not> exited_by w 3"
    and x: "exited_by w (deadline d)" and z: "exit_code w = 0"
    and m: "extract_metrics (files w) (os_path_join output_dir (generate_run_id w s u)) = Inr ms"
    and ne: "ms \<noteq> []" and b: "delivered w = []"
  shows "run_single_test w u d c s =
     (Inr True, s\<lparr>locust_process := Some \<lparr>alive = False, stubborn = ignores_terminate w\<rparr>,
        locust_log_file := False,
        events := events s @ launch_events (generate_run_id w s u) u d
          @ replicate (rounds w d) KeepAlive
          @ [CloseLog, StopCollecting, Sleep 2,
             ExtractMetrics (os_path_join output_dir (generate_run_id w s u)),
             InsertLocustMetrics (generate_run_id w s u) ms, GetAggregatedMetrics,
             CreateRunSummary (generate_run_id w s u)]
          @ (if 0 < c then [Cooldown c] else []) @ [Disconnect]\<rparr>)"
proof -
  note n = undisturbed_raises [OF u]
  have l: "keep_alive_loop w d 0 t =
      (Inr (rounds w d), t\<lparr>events := events t @ replicate (rounds w d) KeepAlive\<rparr>)" for t
    using n g by (rule keep_alive_loop_rounds)
  have a: "aggregate_metrics (arithmetic w) (delivered w) = Inr None"
    by (simp add: b aggregate_metrics_def)
  show ?thesis
    by (simp add: run_single_test_def run_body_def with_collector_def call_def emit_def
        start_locust_def launch_def wait_for_locust_completion_def record_results_def
        persist_results_def Let_def n g l rounds_wait [OF g] rounds_wait_sum [OF g] x z m ne a launch_events_def)
qed



section \<open>The number of cooldowns of a suite\<close>

lemma run_cooldown_count:
  assumes "raises w NatsDisconnect = None" and "run_single_test w u d c s = (r, s')"
  shows "\<exists>new. events s' = events s @ new
      \<and> filter is_cooldown new = (if r = Inr True \<and> 0 < c then [Cooldown c] else [])"
  using run_cooldown_position [OF assms] by (auto split: if_splits)

lemma suite_loop_cooldowns:
  assumes "\<forall>i. raises (worlds i) NatsDisconnect = None"
  shows "suite_loop worlds idx user_counts d c k s = (Inr k', s') \<Longrightarrow>
     k \<le> k' \<and> (\<exists>new. events s' = events s @ new
        \<and> filter is_cooldown new = (if 0 < c then replicate (k' - k) (Cooldown c) else []))"
proof (induction user_counts arbitrary: idx k s)
  case Nil
  then show ?case by simp
next
  case (Cons u rest)
  obtain r s1 where run: "run_single_test (worlds idx) u d c s = (r, s1)"
    by (cases "run_single_test (worlds idx) u d c s")
  from Cons.prems run obtain ok where ok: "r = Inr ok"
    unfolding suite_loop_step by (cases r) auto
  from Cons.prems run ok
  have l: "suite_loop worlds (idx + 1) rest d c (if ok then k + 1 else k) s1 = (Inr k', s')"
    unfolding suite_loop_step by simp
  from assms have "raises (worlds idx) NatsDisconnect = None" by simp
  from run_cooldown_count [OF this run] obtain new1 where
    e1: "events s1 = events s @ new1"
    and c1: "filter is_cooldown new1 = (if ok \<and> 0 < c then [Cooldown c] else [])"
    unfolding ok by auto
  from Cons.IH [OF l] obtain new2 where
    le: "(if ok then k + 1 else k) \<le> k'" and e2: "events s' = events s1 @ new2"
    and c2: "filter is_cooldown new2
        = (if 0 < c then replicate (k' - (if ok then k + 1 else k)) (Cooldown c) else [])"
    by auto
  have "filter is_cooldown (new1 @ new2)
        = (if 0 < c then replicate (k' - k) (Cooldown c) else [])"
  proof (cases ok)
    case True
    with le have "k' - k = Suc (k' - (k + 1))" by simp
    then have "replicate (k' - k) (Cooldown c) = Cooldown c # replicate (k' - (k + 1)) (Cooldown c)"
      by (simp only: replicate_Suc)
    with True c1 c2 show ?thesis by simp
  next
    case False
    with c1 c2 show ?thesis by simp
  qed
  moreover from e1 e2 have "events s' = events s @ (new1 @ new2)" by simp
  moreover from le have "k \<le> k'" by (simp split: if_splits)
  ultimately show ?case by blast
qed

section \<open>The scenarios\<close>

lemmas csv_eval = extract_metrics_def dict_row_def stripped_field_def strip_def is_space_def
  build_metric_def int_field_def int_cell_def float_field_def float_cell_def py_int_def
  py_float_def sign_of_def digitpart_def is_digit_def digit_val_def decimal_def exponent_def
  lower_def

lemma scenario_csv:
  "extract_metrics scenario_files ''outputs/shop_stage0_u50_20260101_120000'' = Inr [posts_metric]"
  by (simp add: csv_eval scenario_files_def stats_table_def posts_metric_def)

lemma scenario_fields:
  "raises (scenario_world f l c) = f" "lifetime (scenario_world f l c) = l"
  "exit_code (scenario_world f l c) = c" "ignores_terminate (scenario_world f l c) = False"
  "files (scenario_world f l c) = scenario_files" "delivered (scenario_world f l c) = []"
  "timestamp (scenario_world f l c) = ''20260101_120000''"
  by (simp_all add: scenario_world_def)

lemma scenario_run_ids:
  assumes "app_name s = ''shop''" and "stage s = 0" and "timestamp w = ''20260101_120000''"
  shows "generate_run_id w s 50 = run_50"
    and "generate_run_id w s 100 = run_100"
  using assms
  by (simp_all add: generate_run_id_def str_int_def str_nat.simps run_50_def run_100_def)

lemma scenario_paths:
  "os_path_join output_dir run_50 = ''outputs/shop_stage0_u50_20260101_120000''"
  "os_path_join output_dir (run_50 @ ''.locust.log'')
     = ''outputs/shop_stage0_u50_20260101_120000.locust.log''"
  "os_path_join output_dir run_100 = ''outputs/shop_stage0_u100_20260101_120000''"
  "os_path_join output_dir (run_100 @ ''.locust.log'')
     = ''outputs/shop_stage0_u100_20260101_120000.locust.log''"
  by (simp_all add: os_path_join_def output_dir_def run_50_def run_100_def)

lemma scenario_rounds:
  "rounds exit_1_world 10 = 10" "rounds clean_world 10 = 10" "rounds hung_world 10 = 70"
  "rounds stubborn_world 10 = 70" "rounds late_exit_world 10 = 70"
  by (simp_all add: rounds_def loop_bound_def exit_1_world_def clean_world_def hung_world_def
        stubborn_world_def late_exit_world_def scenario_fields)

lemma scenario_undisturbed:
  "undisturbed exit_1_world" "undisturbed clean_world" "undisturbed hung_world"
  "undisturbed stubborn_world" "undisturbed late_exit_world"
  by (simp_all add: undisturbed_def exit_1_world_def clean_world_def hung_world_def
        stubborn_world_def late_exit_world_def scenario_fields)

lemma scenario_exits:
  "\<not> exited_by exit_1_world 3" "exited_by exit_1_world (deadline 10)"
  "\<not> exited_by clean_world 3" "exited_by clean_world (deadline 10)"
  "\<not> exited_by hung_world 3" "\<not> exited_by hung_world (deadline 10)"
  "\<not> exited_by stubborn_world 3" "\<not> exited_by stubborn_world (deadline 10)"
  "\<not> exited_by late_exit_world 3" "exited_by late_exit_world (deadline 10)"
  "\<not> exited_by late_exit_world (3 + loop_bound 10)"
  "\<not> exited_by loop_error_world 3" "\<not> exited_by interrupt_world 3"
  by (simp_all add: exited_by_def deadline_def loop_bound_def exit_1_world_def clean_world_def
        hung_world_def stubborn_world_def late_exit_world_def loop_error_world_def
        interrupt_world_def scenario_fields)

lemma scenario_timestamps:
  "timestamp exit_1_world = ''20260101_120000''" "timestamp clean_world = ''20260101_120000''"
  "timestamp hung_world = ''20260101_120000''" "timestamp stubborn_world = ''20260101_120000''"
  "timestamp late_exit_world = ''20260101_120000''"
  "timestamp loop_error_world = ''20260101_120000''"
  "timestamp interrupt_world = ''20260101_120000''"
  by (simp_all add: exit_1_world_def clean_world_def hung_world_def stubborn_world_def
        late_exit_world_def loop_error_world_def interrupt_world_def scenario_fields)

lemma scenario_codes:
  "exit_code exit_1_world = 1" "exit_code clean_world = 0" "exit_code late_exit_world = 0"
  "ignores_terminate exit_1_world = False" "ignores_terminate clean_world = False"
  "ignores_terminate hung_world = False" "ignores_terminate stubborn_world = True"
  "ignores_terminate late_exit_world = False" "ignores_terminate loop_error_world = True"
  "ignores_terminate interrupt_world = True"
  "delivered clean_world = []" "delivered late_exit_world = []"
  "files exit_1_world = scenario_files" "files clean_world = scenario_files"
  "files late_exit_world = scenario_files"
  by (simp_all add: exit_1_world_def clean_world_def hung_world_def stubborn_world_def
        late_exit_world_def loop_error_world_def interrupt_world_def scenario_fields)


text \<open>The runs of the scenarios, from a state of the runner of the scenario.\<close>

lemma exit_1_run:
  assumes "app_name s = ''shop''" and "stage s = 0"
  shows "run_single_test exit_1_world 50 10 30 s =
     (Inr False, s\<lparr>locust_process := None, locust_log_file := False, events := events s @
        [CreateBenchmarkRun run_50 50, Connect, StartCollecting, Sleep 2,
         OpenLog ''outputs/shop_stage0_u50_20260101_120000.locust.log'', Popen 50 10, Sleep 3]
        @ replicate 10 KeepAlive @ [CloseLog, Terminate, Disconnect]\<rparr>)"
    and "run_single_test exit_1_world 100 10 30 s =
     (Inr False, s\<lparr>locust_process := None, locust_log_file := False, events := events s @
        [CreateBenchmarkRun run_100 100, Connect, StartCollecting, Sleep 2,
         OpenLog ''outputs/shop_stage0_u100_20260101_120000.locust.log'', Popen 100 10, Sleep 3]
        @ replicate 10 KeepAlive @ [CloseLog, Terminate, Disconnect]\<rparr>)"
proof -
  have x: "exit_code exit_1_world \<noteq> 0 \<or> \<not> exited_by exit_1_world (deadline 10)"
    by (simp add: scenario_codes)
  note ids = scenario_run_ids [OF assms scenario_timestamps(1)]
  show "run_single_test exit_1_world 50 10 30 s =
     (Inr False, s\<lparr>locust_process := None, locust_log_file := False, events := events s @
        [CreateBenchmarkRun run_50 50, Connect, StartCollecting, Sleep 2,
         OpenLog ''outputs/shop_stage0_u50_20260101_120000.locust.log'', Popen 50 10, Sleep 3]
        @ replicate 10 KeepAlive @ [CloseLog, Terminate, Disconnect]\<rparr>)"
    unfolding stopped_run [OF scenario_undisturbed(1) scenario_exits(1) x] ids
    by (simp add: launch_events_def scenario_paths scenario_rounds scenario_exits)
  show "run_single_test exit_1_world 100 10 30 s =
     (Inr False, s\<lparr>locust_process := None, locust_log_file := False, events := events s @
        [CreateBenchmarkRun run_100 100, Connect, StartCollecting, Sleep 2,
         OpenLog ''outputs/shop_stage0_u100_20260101_120000.locust.log'', Popen 100 10, Sleep 3]
        @ replicate 10 KeepAlive @ [CloseLog, Terminate, Disconnect]\<rparr>)"
    unfolding stopped_run [OF scenario_undisturbed(1) scenario_exits(1) x] ids
    by (simp add: launch_events_def scenario_paths scenario_rounds scenario_exits)
qed


lemma clean_world_run:
  assumes "app_name s = ''shop''" and "stage s = 0"
  shows "run_single_test clean_world 50 10 30 s =
     (Inr True, s\<lparr>locust_process := Some \<lparr>alive = False, stubborn = False\<rparr>,
        locust_log_file := False, events := events s @
        [CreateBenchmarkRun run_50 50, Connect, StartCollecting, Sleep 2,
         OpenLog ''outputs/shop_stage0_u50_20260101_120000.locust.log'', Popen 50 10, Sleep 3]
        @ replicate 10 KeepAlive
        @ [CloseLog, StopCollecting, Sleep 2,
           ExtractMetrics ''outputs/shop_stage0_u50_20260101_120000'',
           InsertLocustMetrics run_50 [posts_metric], GetAggregatedMetrics,
           CreateRunSummary run_50, Cooldown 30, Disconnect]\<rparr>)"
proof -
  note id = scenario_run_ids(1) [OF assms scenario_timestamps(2)]
  have m: "extract_metrics (files clean_world)
      (os_path_join output_dir (generate_run_id clean_world s 50)) = Inr [posts_metric]"
    unfolding id scenario_paths scenario_codes by (rule scenario_csv)
  have ne: "[posts_metric] \<noteq> []" by simp
  show ?thesis
    unfolding clean_run [OF scenario_undisturbed(2) scenario_exits(3,4) scenario_codes(2) m ne
        scenario_codes(11)] id
    by (simp add: launch_events_def scenario_paths scenario_rounds scenario_codes)
qed




lemma fresh_fields: "app_name fresh_runner = ''shop''" "stage fresh_runner = 0"
  by (simp_all add: fresh_runner_def)

section \<open>Claims about aggregate_metrics\<close>

text \<open>
  C6: aggregate_metrics on an empty buffer returns None ("no data"), not a record
  of zeros.
\<close>

theorem aggregate_metrics_empty_buffer:
  "aggregate_metrics ar [] = Inr None"
  by (simp add: aggregate_metrics_def)

text \<open>
  C10, as the claim states it, fails for a sample whose \<open>measurements\<close> object is
  empty: the test of line 121 is false for it, no scan sample is appended, and
  the returned dict has no \<open>index_scans\<close> item.
\<close>

theorem index_scans_empty_measurements_counterexample:
  "\<forall>ar. \<not> (\<exists>agg. aggregate_metrics ar [[(''measurements'', JObj [])]] = Inr (Some agg)
        \<and> map_of agg ''index_scans'' = Some (JInt 0))"
  by (simp add: aggregate_metrics_def empty_lists_def parse_measurements_def parse_health_def
        dict_get_def add_connections_def add_cache_def add_scans_def add_health_def)

text \<open>
  C10 (amended): if at least one sample of the buffer carries a non-empty
  measurements object and aggregate_metrics returns, it returns a dict whose
  \<open>index_scans\<close> is 0, whatever the samples hold.
\<close>

theorem index_scans_zero:
  assumes "aggregate_metrics ar buf = Inr r"
    and "\<exists>m\<in>set buf. carries_measurements m"
  shows "\<exists>agg. r = Some agg \<and> map_of agg ''index_scans'' = Some (JInt 0)"
proof -
  from assms(2) have ne: "buf \<noteq> []" by auto
  with assms(1) obtain agg where r: "r = Some agg"
    by (auto simp: aggregate_metrics_def split: sum.splits)
  from aggregate_metrics_items [OF assms(1) [unfolded r]]
  have ok: "list_all sample_ok buf" and a: "agg = items_of ar (extend_lists buf empty_lists)"
    by simp_all
  from assms(2) obtain m where m: "m \<in> set buf" and t: "carries_measurements m"
    by blast
  from ok m have "sample_ok m" by (simp add: list_all_iff)
  with t have "measured m \<noteq> []" by (simp add: measured_truthy carries_measurements_def)
  then have "scan_part m \<noteq> []" by (simp add: scan_part_def)
  with m have "scan_samples (extend_lists buf empty_lists) \<noteq> []"
    unfolding scan_samples_extend concat_map_nonempty by blast
  then have "map_of agg ''index_scans'' = Some (JInt 0)"
    unfolding a items_of_def by (simp split: list.splits)
  with r show ?thesis by simp
qed

theorem index_scans_zero_witness:
  "aggregate_metrics exact_arith [[(''measurements'', JObj [(''sequential_scans'', JInt 7)])]]
     = Inr (Some [(''active_connections'', JInt 0), (''max_connections'', JInt 100),
                  (''sequential_scans'', JInt 7), (''index_scans'', JInt 0)])
   \<and> (\<exists>agg. Some [(''active_connections'', JInt 0), (''max_connections'', JInt 100),
                  (''sequential_scans'', JInt 7), (''index_scans'', JInt 0)] = Some agg
          \<and> map_of agg ''index_scans'' = Some (JInt 0))"
proof -
  have run: "aggregate_metrics exact_arith
       [[(''measurements'', JObj [(''sequential_scans'', JInt 7)])]]
     = Inr (Some [(''active_connections'', JInt 0), (''max_connections'', JInt 100),
                  (''sequential_scans'', JInt 7), (''index_scans'', JInt 0)])"
    by (simp add: agg_eval)
  have some: "\<exists>m\<in>set [[(''measurements'', JObj [(''sequential_scans'', JInt 7)])]].
      carries_measurements m"
    by (simp add: dict_get_def carries_measurements_def)
  from index_scans_zero [OF run some] run show ?thesis by simp
qed

text \<open>
  C4, as the claim states it, fails for \<open>active_connections\<close>: of two samples
  with measurements, one reporting 10 active connections and one not reporting
  the field, the aggregate is int(10 / 2) = 5, while the mean over the samples
  where the field is present and non-zero is 10.
\<close>

theorem absent_reading_counted_counterexample:
  "aggregate_metrics exact_arith
       [[(''measurements'', JObj [(''active_connections'', JInt 10)])],
        [(''measurements'', JObj [(''cache_hit_rate'', JFloat (Finite (1 / 2)))])]]
     = Inr (Some [(''active_connections'', JInt 5), (''max_connections'', JInt 100),
                  (''cache_hit_rate'', JFloat (Finite (1 / 2))),
                  (''sequential_scans'', JInt 0), (''index_scans'', JInt 0)])
   \<and> present_nonzero ''active_connections''
        [[(''measurements'', JObj [(''active_connections'', JInt 10)])],
         [(''measurements'', JObj [(''cache_hit_rate'', JFloat (Finite (1 / 2)))])]] = [JInt 10]
   \<and> py_mean exact_arith [JInt 10] = Inr (Finite 10)"
  by (simp add: agg_eval floor_rat_numeral present_nonzero_def measured_def)

text \<open>
  C4 (amended): when aggregate_metrics returns a dict for a non-empty buffer,
  with the mean of a list of readings being \<open>sum(...) / len(...)\<close> as Python
  computes it on the readings in buffer order,
  \<^item> \<open>cache_hit_rate\<close> is \<open>round(mean, 4)\<close> for the cache hit rates that are
    greater than zero among the samples with non-empty measurements (absent,
    if there is none);
  \<^item> \<open>active_connections\<close> and \<open>sequential_scans\<close> are \<open>int(mean)\<close> over all
    samples with non-empty measurements, one reading per such sample, a
    missing reading counting as 0;
  \<^item> each health score is \<open>round(mean, 2)\<close> over the samples in which at least
    one of the four health scores is truthy, one reading per such sample, a
    missing score counting as 0;
  and for the five samples with cache hit rates 0.9, 0.0, 0.8, 0.0, 0.95 the
  mean is taken over 0.9, 0.8 and 0.95 and the aggregated \<open>cache_hit_rate\<close> is
  0.8833.
\<close>

theorem aggregate_metrics_means:
  assumes "aggregate_metrics ar buf = Inr (Some agg)"
  shows "(if positive_cache_rates buf = [] then map_of agg ''cache_hit_rate'' = None
          else \<exists>m. py_mean ar (positive_cache_rates buf) = Inr m
                 \<and> map_of agg ''cache_hit_rate'' = Some (JFloat (round_float ar m 4)))
       \<and> (if filter carries_measurements buf = [] then map_of agg ''active_connections'' = None
          else \<exists>m i. py_mean ar (readings ''active_connections'' buf) = Inr m
                 \<and> int_of_float m = Inr i
                 \<and> map_of agg ''active_connections'' = Some (JInt i))
       \<and> (if filter carries_measurements buf = [] then map_of agg ''sequential_scans'' = None
          else \<exists>m i. py_mean ar (readings ''sequential_scans'' buf) = Inr m
                 \<and> int_of_float m = Inr i
                 \<and> map_of agg ''sequential_scans'' = Some (JInt i))
       \<and> (if filter has_health buf = [] then map_of agg ''query_health'' = None
          else \<exists>m. py_mean ar (health_readings ''query_health'' buf) = Inr m
                 \<and> map_of agg ''query_health'' = Some (JFloat (round_float ar m 2)))
       \<and> (if filter has_health buf = [] then map_of agg ''connection_health'' = None
          else \<exists>m. py_mean ar (health_readings ''connection_health'' buf) = Inr m
                 \<and> map_of agg ''connection_health'' = Some (JFloat (round_float ar m 2)))
       \<and> (if filter has_health buf = [] then map_of agg ''cache_health'' = None
          else \<exists>m. py_mean ar (health_readings ''cache_health'' buf) = Inr m
                 \<and> map_of agg ''cache_health'' = Some (JFloat (round_float ar m 2)))
       \<and> (if filter has_health buf = [] then map_of agg ''overall_health'' = None
          else \<exists>m. py_mean ar (health_readings ''health_score'' buf) = Inr m
                 \<and> map_of agg ''overall_health'' = Some (JFloat (round_float ar m 2)))
       \<and> length (readings ''active_connections'' buf) = length (filter carries_measurements buf)
       \<and> length (readings ''sequential_scans'' buf) = length (filter carries_measurements buf)
       \<and> positive_cache_rates cache_scenario
           = [JFloat (Finite (9 / 10)), JFloat (Finite (8 / 10)), JFloat (Finite (95 / 100))]
       \<and> (\<exists>scenario. aggregate_metrics exact_arith cache_scenario = Inr (Some scenario)
            \<and> map_of scenario ''cache_hit_rate'' = Some (JFloat (Finite (8833 / 10000))))"
proof -
  define acc where "acc = extend_lists buf empty_lists"
  from aggregate_metrics_items [OF assms]
  have ok: "list_all sample_ok buf" and a: "agg = items_of ar acc"
    by (simp_all add: acc_def)
  note r = means_return [OF assms, folded acc_def]
  note m = measured_empty [OF ok]
  have conn: "map fst (connection_samples acc) = readings ''active_connections'' buf"
    unfolding acc_def by (rule conn_fst_extend)
  have scan: "map fst (scan_samples acc) = readings ''sequential_scans'' buf"
    unfolding acc_def by (rule scan_fst_extend)
  have cache: "cache_samples acc = positive_cache_rates buf"
    unfolding acc_def by (rule cache_extend)
  note health = health_projections [of buf, folded acc_def]
  have conn_empty: "(connection_samples acc = []) = (filter carries_measurements buf = [])"
    using conn m by (metis map_is_Nil_conv readings_def)
  have scan_empty: "(scan_samples acc = []) = (filter carries_measurements buf = [])"
    using scan m by (metis map_is_Nil_conv readings_def)
  have health_empty: "(health_samples acc = []) = (filter has_health buf = [])"
    by (simp add: acc_def health_extend)
  have h_empty: "(health_readings key buf = []) = (filter has_health buf = [])" for key
    by (simp add: health_readings_def)
  have r_empty: "(readings key buf = []) = (filter carries_measurements buf = [])" for key
    using m by (simp add: readings_def)
  have c1: "if positive_cache_rates buf = [] then map_of agg ''cache_hit_rate'' = None
          else \<exists>m. py_mean ar (positive_cache_rates buf) = Inr m
                 \<and> map_of agg ''cache_hit_rate'' = Some (JFloat (round_float ar m 4))"
    using r(2) unfolding a items_cache cache mean_returns_def by auto
  have c2: "if filter carries_measurements buf = [] then map_of agg ''active_connections'' = None
          else \<exists>m i. py_mean ar (readings ''active_connections'' buf) = Inr m
                 \<and> int_of_float m = Inr i
                 \<and> map_of agg ''active_connections'' = Some (JInt i)"
    using r(1) unfolding a items_active conn conn_empty int_mean_returns_def r_empty by auto
  have c3: "if filter carries_measurements buf = [] then map_of agg ''sequential_scans'' = None
          else \<exists>m i. py_mean ar (readings ''sequential_scans'' buf) = Inr m
                 \<and> int_of_float m = Inr i
                 \<and> map_of agg ''sequential_scans'' = Some (JInt i)"
    using r(3) unfolding a items_scans scan scan_empty int_mean_returns_def r_empty by auto
  have c4: "if filter has_health buf = [] then map_of agg ''query_health'' = None
          else \<exists>m. py_mean ar (health_readings ''query_health'' buf) = Inr m
                 \<and> map_of agg ''query_health'' = Some (JFloat (round_float ar m 2))"
    using r(4) unfolding a items_query health health_empty mean_returns_def h_empty by auto
  have c5: "if filter has_health buf = [] then map_of agg ''connection_health'' = None
          else \<exists>m. py_mean ar (health_readings ''connection_health'' buf) = Inr m
                 \<and> map_of agg ''connection_health'' = Some (JFloat (round_float ar m 2))"
    using r(5) unfolding a items_connection_health health health_empty mean_returns_def h_empty
    by auto
  have c6: "if filter has_health buf = [] then map_of agg ''cache_health'' = None
          else \<exists>m. py_mean ar (health_readings ''cache_health'' buf) = Inr m
                 \<and> map_of agg ''cache_health'' = Some (JFloat (round_float ar m 2))"
    using r(6) unfolding a items_cache_health health health_empty mean_returns_def h_empty
    by auto
  have c7: "if filter has_health buf = [] then map_of agg ''overall_health'' = None
          else \<exists>m. py_mean ar (health_readings ''health_score'' buf) = Inr m
                 \<and> map_of agg ''overall_health'' = Some (JFloat (round_float ar m 2))"
    using r(7) unfolding a items_overall health health_empty mean_returns_def h_empty by auto
  have c8: "length (readings ''active_connections'' buf) = length (filter carries_measurements buf)"
    "length (readings ''sequential_scans'' buf) = length (filter carries_measurements buf)"
    by (rule readings_length [OF ok])+
  have c9: "positive_cache_rates cache_scenario
           = [JFloat (Finite (9 / 10)), JFloat (Finite (8 / 10)), JFloat (Finite (95 / 100))]"
    by (simp add: positive_cache_rates_def readings_def measured_def dict_get_def
          cache_scenario_def cache_sample_def is_positive_def gt_zero_def)
  have c10: "\<exists>scenario. aggregate_metrics exact_arith cache_scenario = Inr (Some scenario)
            \<and> map_of scenario ''cache_hit_rate'' = Some (JFloat (Finite (8833 / 10000)))"
    by (simp add: cache_scenario_run)
  from c1 c2 c3 c4 c5 c6 c7 c8 c9 c10 show ?thesis by blast
qed

theorem aggregate_metrics_means_witness:
  "aggregate_metrics exact_arith cache_scenario =
     Inr (Some [(''active_connections'', JInt 0), (''max_connections'', JInt 100),
                (''cache_hit_rate'', JFloat (Finite (8833 / 10000))),
                (''sequential_scans'', JInt 0), (''index_scans'', JInt 0)])
   \<and> positive_cache_rates cache_scenario
       = [JFloat (Finite (9 / 10)), JFloat (Finite (8 / 10)), JFloat (Finite (95 / 100))]
   \<and> (\<exists>m. py_mean exact_arith (positive_cache_rates cache_scenario) = Inr m
        \<and> Some (JFloat (Finite (8833 / 10000))) = Some (JFloat (round_float exact_arith m 4)))"
proof -
  have p: "positive_cache_rates cache_scenario
       = [JFloat (Finite (9 / 10)), JFloat (Finite (8 / 10)), JFloat (Finite (95 / 100))]"
    by (simp add: positive_cache_rates_def readings_def measured_def dict_get_def
          cache_scenario_def cache_sample_def is_positive_def gt_zero_def)
  from aggregate_metrics_means [OF cache_scenario_run]
  have "if positive_cache_rates cache_scenario = []
        then map_of [(''active_connections'', JInt 0), (''max_connections'', JInt 100),
                (''cache_hit_rate'', JFloat (Finite (8833 / 10000))),
                (''sequential_scans'', JInt 0), (''index_scans'', JInt 0)] ''cache_hit_rate'' = None
        else \<exists>m. py_mean exact_arith (positive_cache_rates cache_scenario) = Inr m
          \<and> map_of [(''active_connections'', JInt 0), (''max_connections'', JInt 100),
                (''cache_hit_rate'', JFloat (Finite (8833 / 10000))),
                (''sequential_scans'', JInt 0), (''index_scans'', JInt 0)] ''cache_hit_rate''
              = Some (JFloat (round_float exact_arith m 4))"
    by (rule conjunct1)
  then have "\<exists>m. py_mean exact_arith (positive_cache_rates cache_scenario) = Inr m
        \<and> Some (JFloat (Finite (8833 / 10000))) = Some (JFloat (round_float exact_arith m 4))"
    by (simp add: p)
  with cache_scenario_run p show ?thesis by blast
qed




section \<open>Claims about extract_metrics\<close>

text \<open>
  C7: extract_metrics with a path prefix whose stats file does not exist
  returns the empty list and does not raise; the result is the one it returns
  for a file that holds a header and no data rows, so that a caller cannot
  tell the two apart.
\<close>

theorem missing_stats_file:
  assumes "fs (csv_prefix @ ''_stats.csv'') = None"
  shows "extract_metrics fs csv_prefix = Inr []
       \<and> extract_metrics (fs(csv_prefix @ ''_stats.csv'' := Some [fieldnames])) csv_prefix
           = extract_metrics fs csv_prefix"
  using assms by (simp add: extract_metrics_def)

theorem missing_stats_file_witness:
  "(\<lambda>path. None :: csv_table option) (''outputs/run'' @ ''_stats.csv'') = None
   \<and> extract_metrics (\<lambda>path. None) ''outputs/run'' = Inr []
   \<and> extract_metrics ((\<lambda>path. None)(''outputs/run'' @ ''_stats.csv'' := Some [[''Type'', ''Name'']]))
        ''outputs/run'' = extract_metrics (\<lambda>path. None) ''outputs/run''"
proof -
  have h: "(\<lambda>path. None :: csv_table option) (''outputs/run'' @ ''_stats.csv'') = None" by simp
  from missing_stats_file [where fs = "\<lambda>path. None" and csv_prefix = "''outputs/run''"
      and fieldnames = "[''Type'', ''Name'']", OF h] h
  show ?thesis by blast
qed

text \<open>
  C8: a data row whose numeric fields cannot be parsed is to be dropped without
  aborting the extraction of the other rows. The code does so for text that
  \<open>int\<close> or \<open>float\<close> reject (ValueError, caught at line 76): in the second
  file below the row with \<open>N/A\<close> is dropped and the next row is extracted. It
  does not for a row that is shorter than the header: DictReader fills the
  missing fields with None, \<open>int(None)\<close> raises TypeError, which the handler
  does not catch, and the extraction of the first file below is aborted
  although its last row is well-formed. (On files without short records the
  extraction never aborts: lemma \<open>extract_metrics_rectangular\<close>.)
\<close>

theorem short_row_aborts_extraction:
  "extract_metrics (\<lambda>path. if path = ''outputs/run_stats.csv'' then Some short_row_table else None)
     ''outputs/run'' = Inl TypeError
   \<and> extract_metrics (\<lambda>path. if path = ''outputs/run_stats.csv'' then Some unparseable_row_table else None)
     ''outputs/run'' = Inr [users_metric]"
  by (simp add: csv_eval short_row_table_def unparseable_row_table_def users_metric_def)

section \<open>Claims about the run coordinator\<close>

text \<open>
  C1, as the claim states it, fails: Locust runs for ten seconds, leaves a valid
  CSV with one endpoint row and exits with code 1. \<open>wait_for_locust_completion\<close>
  returns False, and line 176-178 stops Locust and returns False: the CSV is
  never read, no row is inserted and no summary is computed.
\<close>

theorem nonzero_exit_counterexample:
  "exit_code exit_1_world = 1
   \<and> extract_metrics (files exit_1_world) ''outputs/shop_stage0_u50_20260101_120000''
       = Inr [posts_metric]
   \<and> run_single_test exit_1_world 50 10 30 fresh_runner =
       (Inr False, fresh_runner\<lparr>events :=
          [CreateBenchmarkRun run_50 50, Connect, StartCollecting, Sleep 2,
           OpenLog ''outputs/shop_stage0_u50_20260101_120000.locust.log'', Popen 50 10, Sleep 3]
          @ replicate 10 KeepAlive @ [CloseLog, Terminate, Disconnect]\<rparr>)"
  unfolding exit_1_run(1) [OF fresh_fields]
  by (simp add: scenario_codes scenario_csv fresh_runner_def)

text \<open>
  C1 (amended): if the load-generator process exits with a non-zero exit code,
  the run does not return success (there is no PROCESS_FAILED mark) and no
  metrics extraction takes place: the run parses no CSV, aggregates no samples,
  inserts no EndpointMetric rows and no aggregate, and computes no RunSummary.
  If moreover no call of the run raises and the process exits after the 3
  seconds' grace and before the bounded wait gives up, then after the rounds
  of the keep-alive loop \<open>run_single_test\<close> closes the log, stops Locust
  (\<open>terminate()\<close> on the exited process), disconnects and returns False, and
  holds no process afterwards.
\<close>

theorem nonzero_exit_stops_run:
  assumes "exit_code w \<noteq> 0" and "run_single_test w u d c s = (r, s')"
  shows "r \<noteq> Inr True
       \<and> (\<exists>new. events s' = events s @ new \<and> list_all (\<lambda>ev. \<not> is_results ev) new)
       \<and> (undisturbed w \<longrightarrow> \<not> exited_by w 3 \<longrightarrow> exited_by w (deadline d) \<longrightarrow>
            r = Inr False \<and> locust_process s' = None
            \<and> events s' = events s @ launch_events (generate_run_id w s u) u d
                 @ replicate (rounds w d) KeepAlive @ [CloseLog, Terminate, Disconnect])"
proof -
  have x: "exit_code w \<noteq> 0 \<or> \<not> exited_by w (deadline d)" using assms(1) by simp
  from unclean_run [OF x assms(2)]
  have 1: "r \<noteq> Inr True"
    and 2: "\<exists>new. events s' = events s @ new \<and> list_all (\<lambda>ev. \<not> is_results ev) new"
    by simp_all
  have 3: "r = Inr False \<and> locust_process s' = None
            \<and> events s' = events s @ launch_events (generate_run_id w s u) u d
                 @ replicate (rounds w d) KeepAlive @ [CloseLog, Terminate, Disconnect]"
    if "undisturbed w" "\<not> exited_by w 3" "exited_by w (deadline d)"
    using assms(2) that(3) unfolding stopped_run [OF that(1,2) x] by auto
  from 1 2 3 show ?thesis by blast
qed

theorem nonzero_exit_stops_run_witness:
  "exit_code exit_1_world \<noteq> 0 \<and> undisturbed exit_1_world \<and> \<not> exited_by exit_1_world 3
   \<and> exited_by exit_1_world (deadline 10)
   \<and> fst (run_single_test exit_1_world 50 10 30 fresh_runner) = Inr False
   \<and> locust_process (snd (run_single_test exit_1_world 50 10 30 fresh_runner)) = None
   \<and> events (snd (run_single_test exit_1_world 50 10 30 fresh_runner))
       = events fresh_runner @ launch_events (generate_run_id exit_1_world fresh_runner 50) 50 10
           @ replicate (rounds exit_1_world 10) KeepAlive @ [CloseLog, Terminate, Disconnect]
   \<and> (\<exists>new. events (snd (run_single_test exit_1_world 50 10 30 fresh_runner))
               = events fresh_runner @ new
          \<and> list_all (\<lambda>ev. \<not> is_results ev) new)"
proof -
  have c: "exit_code exit_1_world \<noteq> 0" by (simp add: scenario_codes)
  have p: "run_single_test exit_1_world 50 10 30 fresh_runner =
      (fst (run_single_test exit_1_world 50 10 30 fresh_runner),
       snd (run_single_test exit_1_world 50 10 30 fresh_runner))" by simp
  note h = scenario_undisturbed(1) scenario_exits(1,2)
  from nonzero_exit_stops_run [OF c p] c h show ?thesis by blast
qed




text \<open>
  C5, as the claim states it, fails: the cooldown is slept inside
  \<open>run_single_test\<close>, on the path that returns True only (lines 204-206). In a
  suite of two runs that both fail (Locust exits with code 1), the second run
  starts right after the first one's disconnect and nothing sleeps the cooldown.
\<close>

theorem no_cooldown_after_failed_run_counterexample:
  "run_benchmark_suite (\<lambda>idx. exit_1_world) [50, 100] 10 30 fresh_runner =
     (Inr False, fresh_runner\<lparr>events :=
        [CreateBenchmarkRun run_50 50, Connect, StartCollecting, Sleep 2,
         OpenLog ''outputs/shop_stage0_u50_20260101_120000.locust.log'', Popen 50 10, Sleep 3]
        @ replicate 10 KeepAlive @ [CloseLog, Terminate, Disconnect]
        @ [CreateBenchmarkRun run_100 100, Connect, StartCollecting, Sleep 2,
         OpenLog ''outputs/shop_stage0_u100_20260101_120000.locust.log'', Popen 100 10, Sleep 3]
        @ replicate 10 KeepAlive @ [CloseLog, Terminate, Disconnect]\<rparr>)"
proof -
  note e1 = exit_1_run(1) [OF fresh_fields]
  define s1 where "s1 = snd (run_single_test exit_1_world 50 10 30 fresh_runner)"
  have s1: "run_single_test exit_1_world 50 10 30 fresh_runner = (Inr False, s1)"
    unfolding s1_def by (simp add: e1)
  have f: "app_name s1 = ''shop''" "stage s1 = 0"
    unfolding s1_def e1 by (simp_all add: fresh_runner_def)
  note e2 = exit_1_run(2) [OF f]
  have "run_benchmark_suite (\<lambda>idx. exit_1_world) [50, 100] 10 30 fresh_runner
        = (Inr False, snd (run_single_test exit_1_world 100 10 30 s1))"
    by (simp add: run_benchmark_suite_def s1 e2)
  also have "snd (run_single_test exit_1_world 100 10 30 s1) = fresh_runner\<lparr>events :=
        [CreateBenchmarkRun run_50 50, Connect, StartCollecting, Sleep 2,
         OpenLog ''outputs/shop_stage0_u50_20260101_120000.locust.log'', Popen 50 10, Sleep 3]
        @ replicate 10 KeepAlive @ [CloseLog, Terminate, Disconnect]
        @ [CreateBenchmarkRun run_100 100, Connect, StartCollecting, Sleep 2,
         OpenLog ''outputs/shop_stage0_u100_20260101_120000.locust.log'', Popen 100 10, Sleep 3]
        @ replicate 10 KeepAlive @ [CloseLog, Terminate, Disconnect]\<rparr>"
    unfolding e2 unfolding s1_def e1 by (simp add: fresh_runner_def)
  finally show ?thesis .
qed

text \<open>
  C5 (amended): the cooldown is slept inside the run, not between runs. For
  every run of the suite whose disconnect does not raise:
  \<^item> if the run returns True and the cooldown is positive, the cooldown is slept
    once, as the last action of the run before the disconnect, and the run's
    events are followed by the next run's;
  \<^item> if the run fails (or the cooldown is not positive), no cooldown is slept
    during the run;
  \<^item> in either case the suite goes on with the next concurrency level without
    sleeping: the first event after the run is the creation of the next run;
  and if no disconnect raises, the cooldowns slept during a suite that returns
  are as many as its successful runs.
\<close>

theorem cooldown_after_successful_run_only:
  assumes "raises (worlds idx) NatsDisconnect = None"
    and "run_single_test (worlds idx) u d c s = (r, s1)"
  shows "(\<exists>new. events s1 = events s @ new
           \<and> (if r = Inr True \<and> 0 < c
               then \<exists>pre. new = pre @ [Cooldown c, Disconnect] \<and> filter is_cooldown pre = []
               else filter is_cooldown new = []))
       \<and> suite_loop worlds idx (u # rest) d c k s =
           (case r of
              Inl e \<Rightarrow> (Inl e, s1)
            | Inr ok \<Rightarrow> suite_loop worlds (idx + 1) rest d c (if ok then k + 1 else k) s1)
       \<and> (\<forall>u2. \<exists>more. events (snd (run_single_test (worlds (idx + 1)) u2 d c s1))
              = events s1 @ CreateBenchmarkRun (generate_run_id (worlds (idx + 1)) s1 u2) u2 # more)
       \<and> ((\<forall>i. raises (worlds i) NatsDisconnect = None) \<longrightarrow>
            (\<forall>k' s'. suite_loop worlds idx (u # rest) d c k s = (Inr k', s') \<longrightarrow>
               k \<le> k' \<and> (\<exists>new. events s' = events s @ new
                  \<and> filter is_cooldown new
                      = (if 0 < c then replicate (k' - k) (Cooldown c) else []))))"
proof (intro conjI allI impI)
  show "\<exists>new. events s1 = events s @ new
           \<and> (if r = Inr True \<and> 0 < c
               then \<exists>pre. new = pre @ [Cooldown c, Disconnect] \<and> filter is_cooldown pre = []
               else filter is_cooldown new = [])"
    using assms by (rule run_cooldown_position)
  show "suite_loop worlds idx (u # rest) d c k s =
           (case r of
              Inl e \<Rightarrow> (Inl e, s1)
            | Inr ok \<Rightarrow> suite_loop worlds (idx + 1) rest d c (if ok then k + 1 else k) s1)"
    unfolding suite_loop_step assms(2) by simp
next
  fix u2
  obtain r2 s2 where n: "run_single_test (worlds (idx + 1)) u2 d c s1 = (r2, s2)"
    by (cases "run_single_test (worlds (idx + 1)) u2 d c s1")
  from run_first_event [OF n] n
  show "\<exists>more. events (snd (run_single_test (worlds (idx + 1)) u2 d c s1))
              = events s1 @ CreateBenchmarkRun (generate_run_id (worlds (idx + 1)) s1 u2) u2 # more"
    by auto
next
  fix k' s'
  assume a: "\<forall>i. raises (worlds i) NatsDisconnect = None"
    and l: "suite_loop worlds idx (u # rest) d c k s = (Inr k', s')"
  from suite_loop_cooldowns [OF a l]
  show "k \<le> k'" and "\<exists>new. events s' = events s @ new
                  \<and> filter is_cooldown new
                      = (if 0 < c then replicate (k' - k) (Cooldown c) else [])"
    by simp_all
qed

theorem cooldown_after_successful_run_only_witness:
  "raises exit_1_world NatsDisconnect = None
   \<and> (\<forall>i. raises ((\<lambda>idx::nat. if idx = 1 then exit_1_world else clean_world) i) NatsDisconnect
          = None)
   \<and> run_single_test exit_1_world 100 10 30 fresh_runner =
       (Inr False, fresh_runner\<lparr>events :=
          [CreateBenchmarkRun run_100 100, Connect, StartCollecting, Sleep 2,
           OpenLog ''outputs/shop_stage0_u100_20260101_120000.locust.log'', Popen 100 10, Sleep 3]
          @ replicate 10 KeepAlive @ [CloseLog, Terminate, Disconnect]\<rparr>)
   \<and> (\<exists>new. [CreateBenchmarkRun run_100 100, Connect, StartCollecting, Sleep 2,
           OpenLog ''outputs/shop_stage0_u100_20260101_120000.locust.log'', Popen 100 10, Sleep 3]
          @ replicate 10 KeepAlive @ [CloseLog, Terminate, Disconnect] = events fresh_runner @ new
        \<and> filter is_cooldown new = [])
   \<and> suite_loop (\<lambda>idx::nat. if idx = 1 then exit_1_world else clean_world) 1 [100, 50] 10 30 0
         fresh_runner =
       (Inr 1, fresh_runner\<lparr>locust_process := Some \<lparr>alive = False, stubborn = False\<rparr>,
          events :=
          ([CreateBenchmarkRun run_100 100, Connect, StartCollecting, Sleep 2,
           OpenLog ''outputs/shop_stage0_u100_20260101_120000.locust.log'', Popen 100 10, Sleep 3]
          @ replicate 10 KeepAlive @ [CloseLog, Terminate, Disconnect])
          @ [CreateBenchmarkRun run_50 50, Connect, StartCollecting, Sleep 2,
           OpenLog ''outputs/shop_stage0_u50_20260101_120000.locust.log'', Popen 50 10, Sleep 3]
          @ replicate 10 KeepAlive
          @ [CloseLog, StopCollecting, Sleep 2,
             ExtractMetrics ''outputs/shop_stage0_u50_20260101_120000'',
             InsertLocustMetrics run_50 [posts_metric], GetAggregatedMetrics,
             CreateRunSummary run_50, Cooldown 30, Disconnect]\<rparr>)
   \<and> (\<exists>new. ([CreateBenchmarkRun run_100 100, Connect, StartCollecting, Sleep 2,
           OpenLog ''outputs/shop_stage0_u100_20260101_120000.locust.log'', Popen 100 10, Sleep 3]
          @ replicate 10 KeepAlive @ [CloseLog, Terminate, Disconnect])
          @ [CreateBenchmarkRun run_50 50, Connect, StartCollecting, Sleep 2,
           OpenLog ''outputs/shop_stage0_u50_20260101_120000.locust.log'', Popen 50 10, Sleep 3]
          @ replicate 10 KeepAlive
          @ [CloseLog, StopCollecting, Sleep 2,
             ExtractMetrics ''outputs/shop_stage0_u50_20260101_120000'',
             InsertLocustMetrics run_50 [posts_metric], GetAggregatedMetrics,
             CreateRunSummary run_50, Cooldown 30, Disconnect] = events fresh_runner @ new
        \<and> filter is_cooldown new = [Cooldown 30])"
proof -
  let ?W = "\<lambda>idx::nat. if idx = 1 then exit_1_world else clean_world"
  let ?E1 = "[CreateBenchmarkRun run_100 100, Connect, StartCollecting, Sleep 2,
           OpenLog ''outputs/shop_stage0_u100_20260101_120000.locust.log'', Popen 100 10, Sleep 3]
          @ replicate 10 KeepAlive @ [CloseLog, Terminate, Disconnect]"
  let ?E2 = "[CreateBenchmarkRun run_50 50, Connect, StartCollecting, Sleep 2,
           OpenLog ''outputs/shop_stage0_u50_20260101_120000.locust.log'', Popen 50 10, Sleep 3]
          @ replicate 10 KeepAlive
          @ [CloseLog, StopCollecting, Sleep 2,
             ExtractMetrics ''outputs/shop_stage0_u50_20260101_120000'',
             InsertLocustMetrics run_50 [posts_metric], GetAggregatedMetrics,
             CreateRunSummary run_50, Cooldown 30, Disconnect]"
  define s1 where "s1 = fresh_runner\<lparr>events := ?E1\<rparr>"
  define s2 where "s2 = fresh_runner\<lparr>locust_process := Some \<lparr>alive = False, stubborn = False\<rparr>,
          events := ?E1 @ ?E2\<rparr>"
  have h: "raises (?W 1) NatsDisconnect = None"
    using scenario_undisturbed(1) by (simp add: undisturbed_def)
  have a: "\<forall>i. raises (?W i) NatsDisconnect = None"
    using scenario_undisturbed(1,2) by (simp add: undisturbed_def)
  have p: "run_single_test (?W 1) 100 10 30 fresh_runner = (Inr False, s1)"
    using exit_1_run(2) [OF fresh_fields] by (simp add: s1_def fresh_runner_def)
  have f: "app_name s1 = ''shop''" "stage s1 = 0"
    by (simp_all add: s1_def fresh_runner_def)
  have q: "run_single_test (?W 2) 50 10 30 s1 = (Inr True, s2)"
    using clean_world_run [OF f] by (simp add: s1_def s2_def fresh_runner_def)
  have l: "suite_loop ?W 1 [100, 50] 10 30 0 fresh_runner = (Inr 1, s2)"
    using p q by (simp add: numeral_2_eq_2)
  note t = cooldown_after_successful_run_only [where worlds = "?W" and idx = 1 and u = 100
      and d = 10 and c = 30 and s = fresh_runner and r = "Inr False" and ?s1.0 = s1
      and rest = "[50]" and k = 0, OF h p]
  from t [THEN conjunct1]
  have "\<exists>new. events s1 = events fresh_runner @ new \<and> filter is_cooldown new = []"
    by simp
  then have c1: "\<exists>new. ?E1 = events fresh_runner @ new \<and> filter is_cooldown new = []"
    by (simp add: s1_def)
  from t [THEN conjunct2, THEN conjunct2, THEN conjunct2, THEN mp, OF a, THEN spec, THEN spec,
      THEN mp, OF l]
  have "\<exists>new. events s2 = events fresh_runner @ new
      \<and> filter is_cooldown new = replicate (1 - 0) (Cooldown 30)"
    by simp
  then have c2: "\<exists>new. ?E1 @ ?E2 = events fresh_runner @ new
      \<and> filter is_cooldown new = [Cooldown 30]"
    by (simp add: s2_def)
  from h have h': "raises exit_1_world NatsDisconnect = None" by simp
  from p have p': "run_single_test exit_1_world 100 10 30 fresh_runner = (Inr False, s1)"
    by simp
  from h' a p' [unfolded s1_def] c1 l [unfolded s2_def] c2 show ?thesis
    by blast
qed




end
